theory Spec2Isabelle
  imports Complex_Main
begin

section \<open>Embedding of smoke-classifier/detect\_fire.py\<close>

text \<open>
  The detection loop of detect\_fire.py, function by function. Python ints (timestamps,
  box coordinates, counters, \<open>minusMinutes\<close>) are \<open>int\<close>. Python floats (scores,
  processing times, \<open>time.time()\<close>) are IEEE 754 double-precision numbers; a float is
  modelled as the real number it denotes, comparisons of floats (and of a float with an
  int) are exact, and every float addition, multiplication and division is the exact
  result rounded by \<open>float_round\<close>. Dictionaries with a fixed set of keys are records;
  a key that is added later (\<open>HistAvg\<close>, \<open>HistMax\<close>, \<open>HistNumSamples\<close>) is an optional
  field. Exceptions are values of \<open>py_error\<close>.
\<close>

datatype py_error = IndexError | KeyError | AssertionError | FileNotFoundError | ZeroDivisionError

subsection \<open>Float arithmetic\<close>

text \<open>
  \<open>pow2 e\<close> is \<open>2\<close> to the power \<open>e\<close> for an integer \<open>e\<close>. \<open>float_exponent x\<close> is
  the largest \<open>e\<close> from \<open>-1075\<close> up to \<open>3020\<close> with \<open>pow2 e \<le> \<bar>x\<bar>\<close>, found by
  binary search (\<open>-1075\<close> when there is none). \<open>round_even\<close> rounds to the nearest
  integer, a tie to the even one. \<open>float_round x\<close> is the double nearest to \<open>x\<close>:
  a multiple of the unit in the last place of \<open>x\<close>, which is \<open>pow2 (e - 52)\<close> for the
  exponent \<open>e\<close> of \<open>x\<close>, and \<open>pow2 (-1074)\<close> below the normal range. The Python
  literal \<open>0.2\<close> is \<open>float_round 0.2\<close>. Results of magnitude \<open>pow2 1024\<close> and above,
  which Python turns into infinities, are outside the model; processing times and scores
  are far below.
\<close>

definition pow2 :: "int \<Rightarrow> real" where
  "pow2 e = (if 0 \<le> e then 2 ^ nat e else 1 / 2 ^ nat (- e))"

definition float_exponent :: "real \<Rightarrow> int" where
  "float_exponent x =
     foldl (\<lambda>e s. if pow2 (e + s) \<le> \<bar>x\<bar> then e + s else e) (- 1075)
       [2048, 1024, 512, 256, 128, 64, 32, 16, 8, 4, 2, 1]"

definition round_even :: "real \<Rightarrow> int" where
  "round_even q =
     (let f = \<lfloor>q\<rfloor>; d = q - of_int f
      in if d < 1 / 2 then f
         else if d > 1 / 2 then f + 1
         else if even f then f else f + 1)"

definition float_round :: "real \<Rightarrow> real" where
  "float_round x =
     (let e = max (float_exponent x) (- 1022); ulp = pow2 (e - 52)
      in of_int (round_even (x / ulp)) * ulp)"

subsection \<open>Time tracker\<close>

record timeTracker =
  totalTime :: real
  numSamples :: int
  timePerSample :: real

definition initializeTimeTracker :: timeTracker where
  "initializeTimeTracker = \<lparr>totalTime = 0, numSamples = 0, timePerSample = 3\<rparr>"

text \<open>
  \<open>updateTimeTracker\<close> first adds to both accumulators, then tests
  \<open>numSamples > 50\<close> on the incremented counter. The sum and the quotient are float
  operations.
\<close>

definition updateTimeTracker :: "timeTracker \<Rightarrow> real \<Rightarrow> timeTracker" where
  "updateTimeTracker tt processingTime =
     (let tt1 = tt\<lparr>totalTime := float_round (totalTime tt + processingTime)\<rparr>;
          tt2 = tt1\<lparr>numSamples := numSamples tt1 + 1\<rparr>
      in if numSamples tt2 > 50
         then tt2\<lparr>timePerSample :=
                    float_round (totalTime tt2 / real_of_int (numSamples tt2)),
                  totalTime := 0, numSamples := 0\<rparr>
         else tt2)"

text \<open>The main loop calls \<open>updateTimeTracker\<close> once per processed image.\<close>

definition recordAll :: "timeTracker \<Rightarrow> real list \<Rightarrow> timeTracker" where
  "recordAll tt ds = foldl updateTimeTracker tt ds"

subsection \<open>Deferred image queue\<close>

record deferredImage =
  timestamp :: int
  cameraID :: string
  imgPath :: string
  md5 :: string
  oldWait :: int

text \<open>
  \<open>len(deferredImages) * timeTracker['timePerSample']\<close> is a float product once
  \<open>timePerSample\<close> has been replaced by a quotient. Before that it is the int 3 and the
  product is an exact int, which \<open>float_round\<close> leaves as it is (below \<open>2 ^ 53\<close>).
\<close>

definition expectedDrainSeconds :: "deferredImage list \<Rightarrow> timeTracker \<Rightarrow> real" where
  "expectedDrainSeconds deferredImages tt =
     float_round (real (length deferredImages) * timePerSample tt)"

text \<open>
  \<open>getDeferrredImgageInfo\<close> mutates the list it is given (\<open>del deferredImages[0]\<close>);
  the model returns the list after the call together with the returned tuple.
\<close>

definition getDeferrredImgageInfo ::
  "deferredImage list \<Rightarrow> timeTracker \<Rightarrow> int \<Rightarrow> real
     \<Rightarrow> deferredImage list \<times> bool \<times> deferredImage option" where
  "getDeferrredImgageInfo deferredImages tt minusMinutes currentTime =
     (if minusMinutes = 0 then (deferredImages, False, None)
      else case deferredImages of
        [] \<Rightarrow> (deferredImages, False, None)
      | img # rest \<Rightarrow>
          (let minusSeconds = 60 * minusMinutes;
               queueFull = (expectedDrainSeconds deferredImages tt \<ge> real_of_int minusSeconds)
           in if queueFull \<or> real_of_int (timestamp img + minusSeconds) < currentTime
              then (rest, queueFull, Some img)
              else (deferredImages, queueFull, None)))"

subsection \<open>Scratch directory and image download\<close>

text \<open>
  The scratch directory is the set of paths that exist. \<open>os.remove\<close> raises when the
  path does not exist.
\<close>

definition os_remove :: "string \<Rightarrow> string set \<Rightarrow> py_error + string set" where
  "os_remove p files = (if p \<in> files then Inr (files - {p}) else Inl FileNotFoundError)"

record camera =
  cam_name :: string
  cam_url :: string
  cam_md5 :: "string option"

text \<open>
  One pass through the body of \<open>getNextImage\<close> reads three things from outside the
  process: the shared counter (\<open>dbManager.getNextSourcesCounter()\<close>, read only when no
  camera is requested), the clock (\<open>int(time.time())\<close>) and the download
  (\<open>urlretrieve\<close> fails, or writes bytes with some MD5 digest to the path that
  \<open>img_archive.getImgPath\<close> names). An \<open>attempt\<close> holds these for one pass; the list
  of attempts is what the outside supplies to successive passes. \<open>getNextImage\<close> calls
  itself after a failed or unchanged download, so it consumes one attempt per pass and
  has no result (\<open>None\<close>) when the list ends before a pass returns.
\<close>

datatype download = DownloadError | Downloaded string

record attempt =
  counterValue :: nat
  clock :: int
  savedAs :: string
  outcome :: download

type_synonym fetched = "string \<times> int \<times> string \<times> string"

fun getNextImage ::
  "attempt list \<Rightarrow> camera list \<Rightarrow> string option \<Rightarrow> string set
     \<Rightarrow> (py_error + attempt list \<times> camera list \<times> string set \<times> fetched) option" where
  "getNextImage [] cameras requestedID files = None"
| "getNextImage (a # net) cameras requestedID files =
     (let requested = (case requestedID of None \<Rightarrow> False | Some c \<Rightarrow> c \<noteq> []);
          index = (if requested
                   then length (takeWhile (\<lambda>x. Some (cam_name x) \<noteq> requestedID) cameras)
                   else counterValue a mod length cameras)
      in if requested \<and> index \<ge> length cameras then Some (Inl IndexError)
         else if \<not> requested \<and> cameras = [] then Some (Inl ZeroDivisionError)
         else case outcome a of
           DownloadError \<Rightarrow> getNextImage net cameras None files
         | Downloaded h \<Rightarrow>
             (let cam = cameras ! index; files' = insert (savedAs a) files
              in if cam_md5 cam = Some h \<and> \<not> requested
                 then getNextImage net cameras None files'
                 else Some (Inr (net, cameras[index := cam\<lparr>cam_md5 := Some h\<rparr>], files',
                                 (cam_name cam, clock a, savedAs a, h)))))"

subsection \<open>Adding to and resolving from the deferred queue\<close>

text \<open>
  \<open>addToDeferredImages\<close> fetches the next camera's image and appends an entry unless
  an entry of that camera is queued; in that case it asserts that there is exactly one
  such entry and returns with the queue as it was (the two-second sleep has no effect on
  the state).
\<close>

definition addToDeferredImages ::
  "attempt list \<Rightarrow> camera list \<Rightarrow> deferredImage list \<Rightarrow> string set
     \<Rightarrow> (py_error + attempt list \<times> camera list \<times> string set \<times> deferredImage list) option" where
  "addToDeferredImages net cameras deferredImages files =
     (case getNextImage net cameras None files of
        None \<Rightarrow> None
      | Some (Inl e) \<Rightarrow> Some (Inl e)
      | Some (Inr (net', cameras', files', (cid, ts, path, hash))) \<Rightarrow>
          (let matches = filter (\<lambda>x. cameraID x = cid) deferredImages
           in if length matches > 0
              then (if length matches = 1
                    then Some (Inr (net', cameras', files', deferredImages))
                    else Some (Inl AssertionError))
              else Some (Inr (net', cameras', files',
                     deferredImages @
                       [\<lparr>timestamp = ts, cameraID = cid, imgPath = path, md5 = hash,
                         oldWait = 0\<rparr>]))))"

text \<open>
  \<open>genDiffImage\<close> opens both images and saves their difference under the name that
  \<open>img_archive.repackFileName\<close> builds, in the directory of the current image. The
  pixels are not modelled; \<open>diffPath\<close> stands for the path of the saved file.
\<close>

definition genDiffImage ::
  "(string \<Rightarrow> int \<Rightarrow> string) \<Rightarrow> string \<Rightarrow> string \<Rightarrow> int \<Rightarrow> string set
     \<Rightarrow> py_error + string set \<times> string" where
  "genDiffImage diffPath path earlierImgPath minusMinutes files =
     (if path \<in> files \<and> earlierImgPath \<in> files
      then Inr (insert (diffPath path minusMinutes) files, diffPath path minusMinutes)
      else Inl FileNotFoundError)"

text \<open>
  \<open>genDiffImageFromDeferred\<close> returns \<open>(None, None, None, None)\<close> (here \<open>None\<close>) when
  the camera's image is unchanged, and the tuple of camera, timestamp, image path and
  difference-image path otherwise.
\<close>

definition genDiffImageFromDeferred ::
  "(string \<Rightarrow> int \<Rightarrow> string) \<Rightarrow> attempt list \<Rightarrow> camera list \<Rightarrow> deferredImage
     \<Rightarrow> deferredImage list \<Rightarrow> int \<Rightarrow> string set
     \<Rightarrow> (py_error + attempt list \<times> camera list \<times> string set \<times> deferredImage list
                     \<times> (string \<times> int \<times> string \<times> string) option) option" where
  "genDiffImageFromDeferred diffPath net cameras deferredImageInfo deferredImages minusMinutes files =
     (case getNextImage net cameras (Some (cameraID deferredImageInfo)) files of
        None \<Rightarrow> None
      | Some (Inl e) \<Rightarrow> Some (Inl e)
      | Some (Inr (net', cameras', files', (cid, ts, path, hash))) \<Rightarrow>
          (let timeDiff = ts - timestamp deferredImageInfo
           in if hash = md5 deferredImageInfo
              then (let kept = (timeDiff + oldWait deferredImageInfo
                                  < min (2 * 60 * minusMinutes) (5 * 60));
                        deferredImages' =
                          (if kept
                           then deferredImages @
                                  [deferredImageInfo\<lparr>timestamp := ts,
                                     oldWait := oldWait deferredImageInfo + timeDiff\<rparr>]
                           else deferredImages);
                        removed = (if kept then Inr files'
                                   else os_remove (imgPath deferredImageInfo) files')
                    in case removed of
                         Inl e \<Rightarrow> Some (Inl e)
                       | Inr files1 \<Rightarrow>
                           (case os_remove path files1 of
                              Inl e \<Rightarrow> Some (Inl e)
                            | Inr files2 \<Rightarrow>
                                Some (Inr (net', cameras', files2, deferredImages', None))))
              else (case genDiffImage diffPath path (imgPath deferredImageInfo) minusMinutes files' of
                      Inl e \<Rightarrow> Some (Inl e)
                    | Inr (files1, imgDiffPath) \<Rightarrow>
                        Some (Inr (net', cameras', files1, deferredImages,
                                   Some (cid, ts, path, imgDiffPath))))))"

text \<open>
  The difference-mode branch of the main loop, from the read of the queue to the point
  where an image is ready to be segmented (\<open>Some\<close> tuple) or the iteration ends with
  \<open>continue\<close> (\<open>None\<close>). \<open>if not cameraID\<close> holds for \<open>None\<close> and for the empty
  string.
\<close>

definition diffModeTick ::
  "(string \<Rightarrow> int \<Rightarrow> string) \<Rightarrow> attempt list \<Rightarrow> camera list \<Rightarrow> deferredImage list
     \<Rightarrow> string set \<Rightarrow> timeTracker \<Rightarrow> int \<Rightarrow> real
     \<Rightarrow> (py_error + attempt list \<times> camera list \<times> string set \<times> deferredImage list
                     \<times> (string \<times> int \<times> string \<times> string) option) option" where
  "diffModeTick diffPath net cameras deferredImages files tt minusMinutes timeStart =
     (case getDeferrredImgageInfo deferredImages tt minusMinutes timeStart of
        (queue1, queueFull, deferredImageInfo) \<Rightarrow>
          (case (if \<not> queueFull then addToDeferredImages net cameras queue1 files
                 else Some (Inr (net, cameras, files, queue1))) of
             None \<Rightarrow> None
           | Some (Inl e) \<Rightarrow> Some (Inl e)
           | Some (Inr (net1, cameras1, files1, queue2)) \<Rightarrow>
               (case deferredImageInfo of
                  None \<Rightarrow> Some (Inr (net1, cameras1, files1, queue2, None))
                | Some info \<Rightarrow>
                    (case genDiffImageFromDeferred diffPath net1 cameras1 info queue2
                            minusMinutes files1 of
                       None \<Rightarrow> None
                     | Some (Inl e) \<Rightarrow> Some (Inl e)
                     | Some (Inr (net2, cameras2, files2, queue3, ready)) \<Rightarrow>
                         (if (case ready of None \<Rightarrow> True | Some (cid, _) \<Rightarrow> cid = [])
                          then Some (Inr (net2, cameras2, files2, queue3, None))
                          else case os_remove (imgPath info) files2 of
                                 Inl e \<Rightarrow> Some (Inl e)
                               | Inr files3 \<Rightarrow>
                                   Some (Inr (net2, cameras2, files3, queue3, ready)))))))"

subsection \<open>Database tables and the two queries\<close>

text \<open>
  \<open>dbManager\<close> holds the three tables the loop writes, each a list of rows in
  insertion order, and the list of queries issued so far. A query is recorded by the
  values substituted into its SQL template.
\<close>

record scoreRow =
  sc_CameraName :: string
  sc_Timestamp :: int
  sc_MinX :: int
  sc_MinY :: int
  sc_MaxX :: int
  sc_MaxY :: int
  sc_Score :: real
  sc_MinusMinutes :: int
  sc_SecondsInDay :: int

record detectionRow =
  dt_CameraName :: string
  dt_Timestamp :: int
  dt_MinX :: int
  dt_MinY :: int
  dt_MaxX :: int
  dt_MaxY :: int
  dt_Score :: real
  dt_HistAvg :: real
  dt_HistMax :: real
  dt_HistNumSamples :: int
  dt_ImageID :: string

record alertRow =
  al_CameraName :: string
  al_Timestamp :: int
  al_ImageID :: string

datatype sqlQuery =
  ScoresHistory string int int int int
| RecentAlerts string int

record dbManager =
  scores :: "scoreRow list"
  detections :: "detectionRow list"
  alerts :: "alertRow list"
  queryLog :: "sqlQuery list"

text \<open>A row of the grouped history query: the box, \<open>count(*)\<close>, \<open>avg(score)\<close>, \<open>max(score)\<close>.\<close>

record historyRow =
  minx :: int
  miny :: int
  maxx :: int
  maxy :: int
  cnt :: int
  avgs :: real
  maxs :: real

definition scoreBox :: "scoreRow \<Rightarrow> int \<times> int \<times> int \<times> int" where
  "scoreBox r = (sc_MinX r, sc_MinY r, sc_MaxX r, sc_MaxY r)"

text \<open>
  \<open>count(*)\<close> and \<open>max(score)\<close> are exact. \<open>avg(score)\<close> is computed inside the
  database engine, whose floating-point summation is not part of this repository; the
  model takes it as the function \<open>sqlAvg\<close> of the scores of the group.
  \<open>sequentialAvg\<close> is one such function, used in examples: the sum in row order and
  the quotient, both in double precision.
\<close>

definition groupRow ::
  "(real list \<Rightarrow> real) \<Rightarrow> scoreRow list \<Rightarrow> int \<times> int \<times> int \<times> int \<Rightarrow> historyRow" where
  "groupRow sqlAvg selected box =
     (let grp = map sc_Score (filter (\<lambda>r. scoreBox r = box) selected)
      in case box of (x0, y0, x1, y1) \<Rightarrow>
           \<lparr>minx = x0, miny = y0, maxx = x1, maxy = y1,
            cnt = int (length grp),
            avgs = sqlAvg grp,
            maxs = Max (set grp)\<rparr>)"

definition sequentialAvg :: "real list \<Rightarrow> real" where
  "sequentialAvg xs =
     float_round (foldl (\<lambda>a x. float_round (a + x)) 0 xs / real (length xs))"

text \<open>
  \<open>SELECT MinX,MinY,MaxX,MaxY,count(*),avg(score),max(score) FROM scores WHERE
  CameraName=c and Timestamp > lo and Timestamp < hi and SecondsInDay > slo and
  SecondsInDay < shi GROUP BY MinX,MinY,MaxX,MaxY\<close>. SQL leaves the order of the groups
  open; the model lists each box once, in the order \<open>remdups\<close> gives.
\<close>

definition queryScoresHistory ::
  "(real list \<Rightarrow> real) \<Rightarrow> dbManager \<Rightarrow> string \<Rightarrow> int \<Rightarrow> int \<Rightarrow> int \<Rightarrow> int
     \<Rightarrow> dbManager \<times> historyRow list" where
  "queryScoresHistory sqlAvg db c lo hi slo shi =
     (let selected = filter (\<lambda>r. sc_CameraName r = c \<and> sc_Timestamp r > lo \<and> sc_Timestamp r < hi
                                  \<and> sc_SecondsInDay r > slo \<and> sc_SecondsInDay r < shi) (scores db)
      in (db\<lparr>queryLog := queryLog db @ [ScoresHistory c lo hi slo shi]\<rparr>,
          map (groupRow sqlAvg selected) (remdups (map scoreBox selected))))"

text \<open>\<open>SELECT * FROM alerts where CameraName=c and timestamp > lo\<close>.\<close>

definition queryRecentAlerts :: "dbManager \<Rightarrow> string \<Rightarrow> int \<Rightarrow> dbManager \<times> alertRow list" where
  "queryRecentAlerts db c lo =
     (db\<lparr>queryLog := queryLog db @ [RecentAlerts c lo]\<rparr>,
      filter (\<lambda>r. al_CameraName r = c \<and> al_Timestamp r > lo) (alerts db))"

subsection \<open>Recording scores and the post-classification filter\<close>

record segment =
  MinX :: int
  MinY :: int
  MaxX :: int
  MaxY :: int
  score :: real
  HistAvg :: "real option"
  HistMax :: "real option"
  HistNumSamples :: "int option"

text \<open>
  \<open>datetime.fromtimestamp\<close> converts to the local time of the machine; the model takes
  the resulting second of the day, \<open>(hour * 60 + minute) * 60 + second\<close>, as the
  function \<open>secondsOfDay\<close> of the timestamp.
\<close>

definition recordScores ::
  "(int \<Rightarrow> int) \<Rightarrow> dbManager \<Rightarrow> string \<Rightarrow> int \<Rightarrow> segment list \<Rightarrow> int \<Rightarrow> dbManager" where
  "recordScores secondsOfDay db cam ts segments minusMinutes =
     db\<lparr>scores := scores db @
           map (\<lambda>segmentInfo.
                  \<lparr>sc_CameraName = cam, sc_Timestamp = ts,
                   sc_MinX = MinX segmentInfo, sc_MinY = MinY segmentInfo,
                   sc_MaxX = MaxX segmentInfo, sc_MaxY = MaxY segmentInfo,
                   sc_Score = score segmentInfo, sc_MinusMinutes = minusMinutes,
                   sc_SecondsInDay = secondsOfDay ts\<rparr>) segments\<rparr>"

text \<open>
  The loop of \<open>postFilter\<close> keeps \<open>maxFireSegment\<close> as a reference to one of the
  dictionaries of \<open>segments\<close> and writes the three history keys into it. The model keeps
  the list of segments and the position of the referenced one.
\<close>

record filterState =
  segs :: "segment list"
  maxFireSegment :: "nat option"
  maxFireScore :: real

text \<open>
  The two assignments to \<open>threshold\<close>: \<open>(row['maxs'] + 1)/2\<close>, then the maximum of
  that and \<open>row['maxs'] + 0.2\<close>; two float additions and a float division.
\<close>

definition threshold :: "real \<Rightarrow> real" where
  "threshold histMax =
     max (float_round (float_round (histMax + 1) / 2)) (float_round (histMax + float_round 0.2))"

definition sameBox :: "historyRow \<Rightarrow> segment \<Rightarrow> bool" where
  "sameBox row segmentInfo \<longleftrightarrow>
     minx row = MinX segmentInfo \<and> miny row = MinY segmentInfo \<and>
     maxx row = MaxX segmentInfo \<and> maxy row = MaxY segmentInfo"

definition rowStep :: "nat \<Rightarrow> historyRow \<Rightarrow> filterState \<Rightarrow> filterState" where
  "rowStep i row st =
     (let segmentInfo = segs st ! i
      in if sameBox row segmentInfo
         then (if score segmentInfo > threshold (maxs row) \<and> score segmentInfo > maxFireScore st
               then \<lparr>segs = (segs st)[i := segmentInfo\<lparr>HistAvg := Some (avgs row),
                                                     HistMax := Some (maxs row),
                                                     HistNumSamples := Some (cnt row)\<rparr>],
                     maxFireSegment = Some i,
                     maxFireScore = score segmentInfo\<rparr>
               else st)
         else st)"

fun rowLoop :: "nat \<Rightarrow> historyRow list \<Rightarrow> filterState \<Rightarrow> filterState" where
  "rowLoop i [] st = st"
| "rowLoop i (row # rows) st = rowLoop i rows (rowStep i row st)"

text \<open>The outer loop visits the positions of \<open>segments\<close> in order and stops at the first
  score below 0.5.\<close>

fun segmentLoop :: "historyRow list \<Rightarrow> nat list \<Rightarrow> filterState \<Rightarrow> filterState" where
  "segmentLoop dbResult [] st = st"
| "segmentLoop dbResult (i # is) st =
     (if score (segs st ! i) < 0.5 then st
      else segmentLoop dbResult is (rowLoop i dbResult st))"

definition postFilter ::
  "(real list \<Rightarrow> real) \<Rightarrow> (int \<Rightarrow> int) \<Rightarrow> dbManager \<Rightarrow> string \<Rightarrow> int \<Rightarrow> segment list
     \<Rightarrow> py_error + dbManager \<times> segment list \<times> segment option" where
  "postFilter sqlAvg secondsOfDay db cam ts segments =
     (case segments of
        [] \<Rightarrow> Inl IndexError
      | first # _ \<Rightarrow>
          if score first < 0.5 then Inr (db, segments, None)
          else (let secondsInDay = secondsOfDay ts
                in case queryScoresHistory sqlAvg db cam (ts - 60 * 60 * 84) (ts - 60 * 60 * 12)
                          (secondsInDay - 60 * 60) (secondsInDay + 60 * 60) of
                     (db', dbResult) \<Rightarrow>
                       (let st = segmentLoop dbResult [0 ..< length segments]
                                   \<lparr>segs = segments, maxFireSegment = None, maxFireScore = 0\<rparr>
                        in Inr (db', segs st, map_option (\<lambda>i. segs st ! i) (maxFireSegment st)))))"

subsection \<open>Detections and alerts\<close>

definition recordDetection ::
  "dbManager \<Rightarrow> string \<Rightarrow> int \<Rightarrow> string list \<Rightarrow> segment \<Rightarrow> py_error + dbManager" where
  "recordDetection db cam ts driveFileIDs fireSegment =
     (case (HistAvg fireSegment, HistMax fireSegment, HistNumSamples fireSegment) of
        (Some a, Some m, Some n) \<Rightarrow>
          Inr (db\<lparr>detections := detections db @
                 [\<lparr>dt_CameraName = cam, dt_Timestamp = ts,
                   dt_MinX = MinX fireSegment, dt_MinY = MinY fireSegment,
                   dt_MaxX = MaxX fireSegment, dt_MaxY = MaxY fireSegment,
                   dt_Score = score fireSegment,
                   dt_HistAvg = a, dt_HistMax = m, dt_HistNumSamples = n,
                   dt_ImageID = (case driveFileIDs of [] \<Rightarrow> [] | x # _ \<Rightarrow> x)\<rparr>]\<rparr>)
      | _ \<Rightarrow> Inl KeyError)"

definition checkAndUpdateAlerts ::
  "dbManager \<Rightarrow> string \<Rightarrow> int \<Rightarrow> string list \<Rightarrow> dbManager \<times> bool" where
  "checkAndUpdateAlerts db cam ts driveFileIDs =
     (case queryRecentAlerts db cam (ts - 60 * 60 * 2) of
        (db', dbResult) \<Rightarrow>
          if length dbResult > 0 then (db', False)
          else (db'\<lparr>alerts := alerts db' @
                      [\<lparr>al_CameraName = cam, al_Timestamp = ts,
                        al_ImageID = (case driveFileIDs of [] \<Rightarrow> [] | x # _ \<Rightarrow> x)\<rparr>]\<rparr>,
                True))"

text \<open>
  The database part of \<open>recordFilterReport\<close> when \<open>positivesOnly\<close> is false: scores are
  recorded, the filter runs, and a detection and possibly an alert row are written when
  the filter returns a segment. \<open>driveFileIDs\<close> stands for the identifiers the two
  uploads return. Collecting positives, drawing, uploading, mailing, file deletion and the
  heartbeat do not touch the tables and are left out. The result tells whether \<open>alertFire\<close> is called.
\<close>

definition recordFilterReport ::
  "(real list \<Rightarrow> real) \<Rightarrow> (int \<Rightarrow> int) \<Rightarrow> dbManager \<Rightarrow> string \<Rightarrow> int \<Rightarrow> segment list
     \<Rightarrow> int \<Rightarrow> string list \<Rightarrow> py_error + dbManager \<times> bool" where
  "recordFilterReport sqlAvg secondsOfDay db cam ts segments minusMinutes driveFileIDs =
     (let db1 = recordScores secondsOfDay db cam ts segments minusMinutes
      in case postFilter sqlAvg secondsOfDay db1 cam ts segments of
           Inl e \<Rightarrow> Inl e
         | Inr (db2, segments', None) \<Rightarrow> Inr (db2, False)
         | Inr (db2, segments', Some fireSegment) \<Rightarrow>
             (case recordDetection db2 cam ts driveFileIDs fireSegment of
                Inl e \<Rightarrow> Inl e
              | Inr db3 \<Rightarrow> Inr (checkAndUpdateAlerts db3 cam ts driveFileIDs)))"

subsection \<open>Notions used in the statements about the filter\<close>

text \<open>
  The rows the filter compares with: the result of its history query for this camera
  and timestamp.
\<close>

definition historyRows ::
  "(real list \<Rightarrow> real) \<Rightarrow> (int \<Rightarrow> int) \<Rightarrow> dbManager \<Rightarrow> string \<Rightarrow> int \<Rightarrow> historyRow list" where
  "historyRows sqlAvg secondsOfDay db cam ts =
     snd (queryScoresHistory sqlAvg db cam (ts - 60 * 60 * 84) (ts - 60 * 60 * 12)
            (secondsOfDay ts - 60 * 60) (secondsOfDay ts + 60 * 60))"

text \<open>A segment clears when some history row of its box has a threshold below its score.\<close>

definition clears :: "historyRow list \<Rightarrow> segment \<Rightarrow> bool" where
  "clears rows s \<longleftrightarrow> (\<exists>row \<in> set rows. sameBox row s \<and> score s > threshold (maxs row))"

text \<open>The segment with the statistics of a history row written into it.\<close>

definition attachHistory :: "historyRow \<Rightarrow> segment \<Rightarrow> segment" where
  "attachHistory row s =
     s\<lparr>HistAvg := Some (avgs row), HistMax := Some (maxs row), HistNumSamples := Some (cnt row)\<rparr>"

text \<open>
  The rows of the \<open>scores\<close> table inside the window of the history query for a camera and
  a timestamp, and the historical scores of the box of a segment: the \<open>Score\<close> column of
  the rows in the window that carry the box of the segment, in table order.
\<close>

definition historyWindow :: "(int \<Rightarrow> int) \<Rightarrow> dbManager \<Rightarrow> string \<Rightarrow> int \<Rightarrow> scoreRow list" where
  "historyWindow secondsOfDay db cam ts =
     filter (\<lambda>r. sc_CameraName r = cam \<and> sc_Timestamp r > ts - 60 * 60 * 84
                 \<and> sc_Timestamp r < ts - 60 * 60 * 12
                 \<and> sc_SecondsInDay r > secondsOfDay ts - 60 * 60
                 \<and> sc_SecondsInDay r < secondsOfDay ts + 60 * 60)
       (scores db)"

definition boxScores :: "(int \<Rightarrow> int) \<Rightarrow> dbManager \<Rightarrow> string \<Rightarrow> int \<Rightarrow> segment \<Rightarrow> real list" where
  "boxScores secondsOfDay db cam ts s =
     map sc_Score
       (filter (\<lambda>r. scoreBox r = (MinX s, MinY s, MaxX s, MaxY s))
          (historyWindow secondsOfDay db cam ts))"

text \<open>
  A segment clears its box when the box has historical scores and the score of the
  segment exceeds the threshold for their maximum.
\<close>

definition clearsBox :: "(int \<Rightarrow> int) \<Rightarrow> dbManager \<Rightarrow> string \<Rightarrow> int \<Rightarrow> segment \<Rightarrow> bool" where
  "clearsBox secondsOfDay db cam ts s \<longleftrightarrow>
     boxScores secondsOfDay db cam ts s \<noteq> [] \<and>
     score s > threshold (Max (set (boxScores secondsOfDay db cam ts s)))"

text \<open>The segment with average, maximum and number of given historical scores attached.\<close>

definition withHistory :: "(real list \<Rightarrow> real) \<Rightarrow> real list \<Rightarrow> segment \<Rightarrow> segment" where
  "withHistory sqlAvg hist s =
     s\<lparr>HistAvg := Some (sqlAvg hist), HistMax := Some (Max (set hist)),
       HistNumSamples := Some (int (length hist))\<rparr>"

text \<open>At most one entry per camera in the deferred queue.\<close>

definition onePerCamera :: "deferredImage list \<Rightarrow> bool" where
  "onePerCamera deferredImages \<longleftrightarrow> distinct (map cameraID deferredImages)"

section \<open>Properties\<close>

subsection \<open>Float arithmetic\<close>

lemma pow2_powr: "pow2 e = 2 powr (real_of_int e)"
proof (cases "0 \<le> e")
  case True
  then have "2 powr (real_of_int e) = 2 powr (real (nat e))" by simp
  also have "\<dots> = 2 ^ nat e" by (simp add: powr_realpow)
  finally show ?thesis
    using True by (simp add: pow2_def)
next
  case False
  then have "2 powr (real_of_int e) = 2 powr (- real (nat (- e)))" by simp
  also have "\<dots> = 1 / 2 ^ nat (- e)" by (simp add: powr_minus powr_realpow divide_inverse)
  finally show ?thesis
    using False by (simp add: pow2_def)
qed

lemma pow2_pos: "0 < pow2 e"
  by (simp add: pow2_powr)

lemma pow2_le_iff: "pow2 a \<le> pow2 b \<longleftrightarrow> a \<le> b"
  by (simp add: pow2_powr)

lemma pow2_less_iff: "pow2 a < pow2 b \<longleftrightarrow> a < b"
  by (simp add: pow2_powr)

lemma pow2_add: "pow2 (a + b) = pow2 a * pow2 b"
  by (simp add: pow2_powr powr_add)

lemma pow2_diff: "pow2 (a - b) = pow2 a / pow2 b"
  by (simp add: pow2_powr powr_diff)

lemma pow2_nonneg_int: "0 \<le> d \<Longrightarrow> pow2 d = of_int (2 ^ nat d)"
  by (simp add: pow2_def)

lemma pow2_bracket:
  assumes "0 < a"
  obtains k where "pow2 k \<le> a" "a < pow2 (k + 1)"
proof
  let ?k = "\<lfloor>log 2 a\<rfloor>"
  have "2 powr (real_of_int ?k) \<le> 2 powr (log 2 a)"
    by (intro powr_mono) simp_all
  with assms show "pow2 ?k \<le> a"
    by (simp add: pow2_powr)
  have "2 powr (log 2 a) < 2 powr (real_of_int (?k + 1))"
    by (intro powr_less_mono) simp_all
  with assms show "a < pow2 (?k + 1)"
    by (simp add: pow2_powr)
qed

lemma exponent_search:
  assumes "pow2 k \<le> a" and "a < pow2 (k + 1)"
  shows "e \<le> k \<Longrightarrow>
    foldl (\<lambda>e s. if pow2 (e + s) \<le> a then e + s else e) e (map (\<lambda>i. 2 ^ i) (rev [0 ..< n]))
      = min k (e + 2 ^ n - 1)"
proof (induction n arbitrary: e)
  case 0
  then show ?case by simp
next
  case (Suc n)
  have test: "pow2 (e + 2 ^ n) \<le> a \<longleftrightarrow> e + 2 ^ n \<le> k"
  proof
    assume "pow2 (e + 2 ^ n) \<le> a"
    with assms(2) have "pow2 (e + 2 ^ n) < pow2 (k + 1)" by simp
    then show "e + 2 ^ n \<le> k" by (simp add: pow2_less_iff)
  next
    assume "e + 2 ^ n \<le> k"
    then have "pow2 (e + 2 ^ n) \<le> pow2 k" by (simp add: pow2_le_iff)
    with assms(1) show "pow2 (e + 2 ^ n) \<le> a" by simp
  qed
  have unfold: "map (\<lambda>i. (2::int) ^ i) (rev [0 ..< Suc n]) = 2 ^ n # map (\<lambda>i. 2 ^ i) (rev [0 ..< n])"
    by simp
  show ?case
  proof (cases "e + 2 ^ n \<le> k")
    case True
    then have "foldl (\<lambda>e s. if pow2 (e + s) \<le> a then e + s else e) (e + 2 ^ n)
        (map (\<lambda>i. 2 ^ i) (rev [0 ..< n])) = min k (e + 2 ^ n + 2 ^ n - 1)"
      by (rule Suc.IH)
    with True test show ?thesis
      unfolding unfold by simp
  next
    case False
    have "foldl (\<lambda>e s. if pow2 (e + s) \<le> a then e + s else e) e
        (map (\<lambda>i. 2 ^ i) (rev [0 ..< n])) = min k (e + 2 ^ n - 1)"
      using Suc.prems by (rule Suc.IH)
    moreover have small: "k \<le> e + 2 ^ n - 1"
      using False by linarith
    moreover have pos: "(0::int) < 2 ^ n"
      by simp
    have "e + 2 ^ n - 1 \<le> e + 2 * 2 ^ n - 1"
      using pos by linarith
    then have "e + 2 ^ n - 1 \<le> e + 2 ^ Suc n - 1"
      by simp
    with small have large: "k \<le> e + 2 ^ Suc n - 1"
      by (rule order_trans)
    have "min k (e + 2 ^ n - 1) = k" "min k (e + 2 ^ Suc n - 1) = k"
      using small large by (simp_all only: min.absorb1)
    ultimately show ?thesis
      unfolding unfold using False test by simp
  qed
qed

lemma exponent_search_low:
  assumes "a < pow2 (e + 1)" and "\<forall>s \<in> set ss. 1 \<le> s"
  shows "foldl (\<lambda>e s. if pow2 (e + s) \<le> a then e + s else e) e ss = e"
  using assms(2)
proof (induction ss)
  case Nil
  show ?case by simp
next
  case (Cons s ss)
  then have "pow2 (e + 1) \<le> pow2 (e + s)" by (simp add: pow2_le_iff)
  with assms(1) have "\<not> pow2 (e + s) \<le> a" by simp
  with Cons show ?case by simp
qed

lemma search_steps:
  "[2048, 1024, 512, 256, 128, 64, 32, 16, 8, 4, 2, 1] = map (\<lambda>i. (2::int) ^ i) (rev [0 ..< 12])"
  by (simp add: numeral_eq_Suc)

lemma float_exponent_eq:
  assumes "pow2 k \<le> \<bar>x\<bar>" and "\<bar>x\<bar> < pow2 (k + 1)"
  shows "float_exponent x = max (- 1075) (min k 3020)"
proof (cases "- 1075 \<le> k")
  case True
  have "float_exponent x = min k (- 1075 + 2 ^ 12 - 1)"
    unfolding float_exponent_def search_steps
    using assms True by (rule exponent_search)
  with True show ?thesis by simp
next
  case False
  then have "pow2 (k + 1) \<le> pow2 (- 1075 + 1)" by (simp add: pow2_le_iff)
  with assms(2) have "\<bar>x\<bar> < pow2 (- 1075 + 1)" by simp
  then have "float_exponent x = - 1075"
    unfolding float_exponent_def by (rule exponent_search_low) simp
  with False show ?thesis by simp
qed

lemma round_even_of_int: "round_even (of_int j) = j"
  by (simp add: round_even_def)

lemma round_even_ge:
  assumes "of_int j \<le> q"
  shows "j \<le> round_even q"
proof -
  from assms have "j \<le> \<lfloor>q\<rfloor>" by (simp add: le_floor_iff)
  then show ?thesis by (simp add: round_even_def Let_def)
qed

lemma float_round_zero: "float_round 0 = 0"
  by (simp add: float_round_def round_even_def)

lemma float_round_exact:
  assumes x: "x = of_int m * pow2 q" and m: "\<bar>m\<bar> < 2 ^ 53"
      and low: "- 1074 \<le> q" and high: "q \<le> 2000"
  shows "float_round x = x"
proof (cases "m = 0")
  case True
  with x show ?thesis by (simp add: float_round_zero)
next
  case False
  have abs: "\<bar>x\<bar> = of_int \<bar>m\<bar> * pow2 q"
    unfolding x using pow2_pos [of q] by (simp add: abs_mult)
  from False have "1 \<le> \<bar>m\<bar>" by simp
  then have "(1::real) \<le> of_int \<bar>m\<bar>" by (metis of_int_1_le_iff)
  then have lower: "pow2 q \<le> \<bar>x\<bar>"
    unfolding abs using pow2_pos [of q] by (simp add: mult_le_cancel_right1)
  from m have "(of_int \<bar>m\<bar> :: real) < 2 ^ 53"
    by (metis of_int_less_numeral_power_cancel_iff)
  then have "\<bar>x\<bar> < 2 ^ 53 * pow2 q"
    unfolding abs using pow2_pos [of q] by simp
  also have "\<dots> = pow2 53 * pow2 q"
    by (simp add: pow2_def)
  also have "\<dots> = pow2 (q + 53)"
    by (simp add: pow2_add [symmetric] add.commute)
  finally have upper: "\<bar>x\<bar> < pow2 (q + 53)" .
  from lower pow2_pos [of q] have "0 < \<bar>x\<bar>" by linarith
  then obtain k where k: "pow2 k \<le> \<bar>x\<bar>" "\<bar>x\<bar> < pow2 (k + 1)"
    by (rule pow2_bracket)
  from lower k(2) have "pow2 q < pow2 (k + 1)" by simp
  then have qk: "q \<le> k" by (simp add: pow2_less_iff)
  from k(1) upper have "pow2 k < pow2 (q + 53)" by simp
  then have kq: "k \<le> q + 52" by (simp add: pow2_less_iff)
  have "float_exponent x = max (- 1075) (min k 3020)"
    using k by (rule float_exponent_eq)
  with qk kq low high have expo: "float_exponent x = k" by simp
  define e where "e = max k (- 1022)"
  define d where "d = q - (e - 52)"
  from kq low have d: "0 \<le> d" by (simp add: d_def e_def)
  have "x / pow2 (e - 52) = of_int m * pow2 d"
    unfolding x d_def by (simp add: pow2_diff [of q])
  also have "\<dots> = of_int (m * 2 ^ nat d)"
    using d by (simp add: pow2_nonneg_int)
  finally have quot: "x / pow2 (e - 52) = of_int (m * 2 ^ nat d)" .
  have "float_round x = of_int (round_even (x / pow2 (e - 52))) * pow2 (e - 52)"
    by (simp add: float_round_def expo e_def Let_def)
  also have "\<dots> = x / pow2 (e - 52) * pow2 (e - 52)"
    unfolding quot round_even_of_int ..
  also have "\<dots> = x"
    using pow2_pos [of "e - 52"] by simp
  finally show ?thesis .
qed

lemma float_round_of_int: "\<bar>n\<bar> < 2 ^ 53 \<Longrightarrow> float_round (of_int n) = of_int n"
  using float_round_exact [of "of_int n" n 0] by (simp add: pow2_def)

lemma float_round_ge_pow2:
  assumes "pow2 K \<le> x" and "- 1022 \<le> K" and "K \<le> 3020"
  shows "pow2 K \<le> float_round x"
proof -
  from assms(1) pow2_pos [of K] have pos: "0 < x" by linarith
  then have "0 < \<bar>x\<bar>" by simp
  then obtain k where k: "pow2 k \<le> \<bar>x\<bar>" "\<bar>x\<bar> < pow2 (k + 1)"
    by (rule pow2_bracket)
  from assms(1) k(2) pos have "pow2 K < pow2 (k + 1)" by simp
  then have Kk: "K \<le> k" by (simp add: pow2_less_iff)
  define e where "e = min k 3020"
  have "float_exponent x = max (- 1075) e"
    unfolding e_def using k by (rule float_exponent_eq)
  with Kk assms(2,3) have expo: "max (float_exponent x) (- 1022) = e"
    by (simp add: e_def)
  have Ke: "K \<le> e" using Kk assms(3) by (simp add: e_def)
  have "pow2 e \<le> pow2 k" by (simp add: pow2_le_iff e_def)
  with k(1) pos have ex: "pow2 e \<le> x" by simp
  have split: "pow2 e = 2 ^ 52 * pow2 (e - 52)"
  proof -
    have "pow2 e = pow2 (52 + (e - 52))" by simp
    also have "\<dots> = pow2 52 * pow2 (e - 52)" by (rule pow2_add)
    also have "pow2 52 = 2 ^ 52" by (simp add: pow2_def)
    finally show ?thesis .
  qed
  have "of_int (2 ^ 52) = pow2 e / pow2 (e - 52)"
    unfolding split using pow2_pos [of "e - 52"] by simp
  also have "\<dots> \<le> x / pow2 (e - 52)"
    using ex pow2_pos [of "e - 52"] by (simp add: divide_right_mono)
  finally have "2 ^ 52 \<le> round_even (x / pow2 (e - 52))"
    by (rule round_even_ge)
  then have "(2 ^ 52 :: real) \<le> of_int (round_even (x / pow2 (e - 52)))"
    by (metis of_int_numeral_le_iff of_int_power numeral_power_eq_of_int_cancel_iff of_int_le_iff of_int_numeral)
  then have "2 ^ 52 * pow2 (e - 52) \<le> of_int (round_even (x / pow2 (e - 52))) * pow2 (e - 52)"
    using pow2_pos [of "e - 52"] by simp
  moreover have "2 ^ 52 * pow2 (e - 52) = pow2 e"
    using split by simp
  moreover have "float_round x = of_int (round_even (x / pow2 (e - 52))) * pow2 (e - 52)"
    by (simp add: float_round_def expo Let_def)
  moreover have "pow2 K \<le> pow2 e"
    using Ke by (simp add: pow2_le_iff)
  ultimately show ?thesis by simp
qed

subsection \<open>Time tracker\<close>

lemma updateTimeTracker_below:
  "numSamples tt < 50 \<Longrightarrow>
   updateTimeTracker tt d =
     tt\<lparr>totalTime := float_round (totalTime tt + d), numSamples := numSamples tt + 1\<rparr>"
  by (simp add: updateTimeTracker_def Let_def)

lemma updateTimeTracker_at_50:
  "numSamples tt = 50 \<Longrightarrow>
   updateTimeTracker tt d =
     tt\<lparr>totalTime := 0, numSamples := 0,
        timePerSample := float_round (float_round (totalTime tt + d) / 51)\<rparr>"
  by (simp add: updateTimeTracker_def Let_def)

lemma recordAll_snoc: "recordAll tt (ds @ [d]) = updateTimeTracker (recordAll tt ds) d"
  by (simp add: recordAll_def)

lemma float_round_count: "n \<le> 51 \<Longrightarrow> float_round (real n) = real n"
  using float_round_of_int [of "int n"] by simp

lemma recordAll_ones:
  "n \<le> 50 \<Longrightarrow>
   recordAll initializeTimeTracker (replicate n 1) =
     \<lparr>totalTime = real n, numSamples = int n, timePerSample = 3\<rparr>"
proof (induction n)
  case 0
  show ?case by (simp add: recordAll_def initializeTimeTracker_def)
next
  case (Suc n)
  then have prev: "recordAll initializeTimeTracker (replicate n 1) =
      \<lparr>totalTime = real n, numSamples = int n, timePerSample = 3\<rparr>"
    and short: "n < 50" by simp_all
  have "replicate (Suc n) (1::real) = replicate n 1 @ [1]"
    by (simp add: replicate_append_same)
  then have "recordAll initializeTimeTracker (replicate (Suc n) 1) =
      updateTimeTracker (recordAll initializeTimeTracker (replicate n 1)) 1"
    by (simp only: recordAll_snoc)
  moreover have "float_round (real n + 1) = real n + 1"
    using float_round_count [of "Suc n"] short by (simp add: add.commute)
  ultimately show ?case
    unfolding prev using short by (simp add: updateTimeTracker_below)
qed

text \<open>
  C2. Starting from \<open>initializeTimeTracker\<close> (\<open>timePerSample = 3\<close>), fifty recorded
  samples of one second each leave \<open>timePerSample\<close> at 3 with the accumulators holding
  50 seconds and 50 samples: nothing is replaced or reset at the fiftieth sample. The
  replacement and the reset happen at the fifty-first sample, which averages 51 samples.
\<close>

theorem C2_reset_at_51st_sample:
  "timePerSample initializeTimeTracker = 3 \<and>
   recordAll initializeTimeTracker (replicate 50 1) =
     \<lparr>totalTime = 50, numSamples = 50, timePerSample = 3\<rparr> \<and>
   recordAll initializeTimeTracker (replicate 51 1) =
     \<lparr>totalTime = 0, numSamples = 0, timePerSample = 1\<rparr>"
proof -
  have fifty: "recordAll initializeTimeTracker (replicate 50 1) =
      \<lparr>totalTime = 50, numSamples = 50, timePerSample = 3\<rparr>"
    using recordAll_ones [of 50] by simp
  have "replicate (50 + 1) (1::real) = replicate 50 1 @ replicate 1 1"
    by (rule replicate_add)
  then have "replicate 51 (1::real) = replicate 50 1 @ [1]"
    by simp
  then have "recordAll initializeTimeTracker (replicate 51 1) =
      updateTimeTracker (recordAll initializeTimeTracker (replicate 50 1)) 1"
    by (simp only: recordAll_snoc)
  moreover have "float_round 51 = 51" "float_round 1 = 1"
    using float_round_count [of 51] float_round_count [of 1] by simp_all
  ultimately have fiftyone: "recordAll initializeTimeTracker (replicate 51 1) =
      \<lparr>totalTime = 0, numSamples = 0, timePerSample = 1\<rparr>"
    unfolding fifty by (simp add: updateTimeTracker_at_50)
  show ?thesis
    using fifty fiftyone by (simp add: initializeTimeTracker_def)
qed

subsection \<open>Deferred image queue\<close>

text \<open>
  C7. For a non-empty queue and a non-zero \<open>minusMinutes\<close>, the reported flag is
  \<open>queueLength * timePerSample \<ge> minusMinutes * 60\<close> (equality included), the product
  being the float product the code computes; the head is removed and returned exactly
  when the queue is full or the head's age \<open>currentTime - timestamp\<close> exceeds
  \<open>minusMinutes * 60\<close>; otherwise nothing is returned and the queue is unchanged.
\<close>

theorem C7_queue_full_and_dequeue:
  assumes "deferredImages \<noteq> []" and "minusMinutes \<noteq> 0"
  shows "getDeferrredImgageInfo deferredImages tt minusMinutes currentTime =
           (let full = (float_round (real (length deferredImages) * timePerSample tt)
                          \<ge> real_of_int (minusMinutes * 60));
                aged = (currentTime - real_of_int (timestamp (hd deferredImages))
                          > real_of_int (minusMinutes * 60))
            in if full \<or> aged
               then (tl deferredImages, full, Some (hd deferredImages))
               else (deferredImages, full, None))"
proof (cases deferredImages)
  case Nil
  with assms(1) show ?thesis by simp
next
  case (Cons img rest)
  have aged: "currentTime - real_of_int (timestamp img) > real_of_int (minusMinutes * 60) \<longleftrightarrow>
      real_of_int (timestamp img + 60 * minusMinutes) < currentTime"
    by auto
  have full: "float_round (real (length deferredImages) * timePerSample tt)
        \<ge> real_of_int (minusMinutes * 60) \<longleftrightarrow>
      expectedDrainSeconds deferredImages tt \<ge> real_of_int (60 * minusMinutes)"
    unfolding expectedDrainSeconds_def by (simp add: mult.commute)
  show ?thesis
    unfolding Let_def full using assms(2) aged
    by (simp add: getDeferrredImgageInfo_def Let_def Cons)
qed

text \<open>
  C10. With \<open>minusMinutes = 0\<close> or an empty queue the call returns \<open>(False, None)\<close> and
  leaves the queue as it was, whatever the time tracker and the current time.
\<close>

theorem C10_disabled_or_empty:
  "minusMinutes = 0 \<or> deferredImages = [] \<Longrightarrow>
   getDeferrredImgageInfo deferredImages tt minusMinutes currentTime =
     (deferredImages, False, None)"
  by (auto simp: getDeferrredImgageInfo_def)

text \<open>
  Seven entries none of which has aged, and \<open>timePerSample = 437.14285714285717 / 51\<close>,
  which is the double \<open>8.571428571428571\<close>, a little below \<open>60 / 7\<close>: the float product
  is \<open>60.0\<close>, the queue is full by equality and the head is handed out.
\<close>

theorem C7_queue_full_and_dequeue_witness:
  "getDeferrredImgageInfo
     (map (\<lambda>c. \<lparr>timestamp = 100, cameraID = c, imgPath = c @ ''.jpg'', md5 = ''h'', oldWait = 0\<rparr>)
        [''a'', ''b'', ''c'', ''d'', ''e'', ''f'', ''g''])
     \<lparr>totalTime = 0, numSamples = 0,
      timePerSample = 4825285315039817 / 562949953421312\<rparr> 1 110 =
   (map (\<lambda>c. \<lparr>timestamp = 100, cameraID = c, imgPath = c @ ''.jpg'', md5 = ''h'', oldWait = 0\<rparr>)
        [''b'', ''c'', ''d'', ''e'', ''f'', ''g''],
    True,
    Some \<lparr>timestamp = 100, cameraID = ''a'', imgPath = ''a.jpg'', md5 = ''h'', oldWait = 0\<rparr>)"
proof -
  have product: "float_round (33776997205278719 / 562949953421312) = 60"
    by (simp add: float_round_def float_exponent_def pow2_def round_even_def Let_def)
  show ?thesis
    using C7_queue_full_and_dequeue
      [of "map (\<lambda>c. \<lparr>timestamp = 100, cameraID = c, imgPath = c @ ''.jpg'', md5 = ''h'',
                         oldWait = 0\<rparr>) [''a'', ''b'', ''c'', ''d'', ''e'', ''f'', ''g'']"
          1 "\<lparr>totalTime = 0, numSamples = 0,
               timePerSample = 4825285315039817 / 562949953421312\<rparr>" 110]
    by (simp add: product)
qed

theorem C10_disabled_or_empty_witness:
  "getDeferrredImgageInfo [] initializeTimeTracker 5 1000 = ([], False, None)"
  using C10_disabled_or_empty [of 5 "[]" initializeTimeTracker 1000]
  by simp

subsection \<open>Resolving a deferred entry\<close>

lemma getNextImage_saved:
  "getNextImage net cameras requestedID files = Some (Inr (net', cameras', files', (cid, ts, path, hash)))
   \<Longrightarrow> path \<in> files'"
proof (induction net cameras requestedID files rule: getNextImage.induct)
  case (1 cameras requestedID files)
  then show ?case by simp
next
  case (2 a net cameras requestedID files)
  then show ?case
    by (auto simp: Let_def split: if_splits download.splits)
qed

text \<open>
  When the refetched image has the digest of the deferred entry, the entry's file exists
  and the refetch was saved under another path, the entry is dropped and its file deleted
  exactly when \<open>oldWait + elapsed \<ge> min (2 * minusMinutes * 60) 300\<close>; otherwise it goes
  to the tail of the queue with the new timestamp and the elapsed time added to
  \<open>oldWait\<close>. The bound is 300 seconds for \<open>minusMinutes = 10\<close> and 120 seconds for
  \<open>minusMinutes = 1\<close>.
\<close>

lemma genDiffImageFromDeferred_unchanged:
  assumes "getNextImage net cameras (Some (cameraID info)) files =
             Some (Inr (net', cameras', files', (cid, ts, path, hash)))"
      and "hash = md5 info"
      and "imgPath info \<in> files'"
      and "path \<noteq> imgPath info"
  shows "genDiffImageFromDeferred diffPath net cameras info deferredImages minusMinutes files =
           (if oldWait info + (ts - timestamp info) \<ge> min (2 * minusMinutes * 60) 300
            then Some (Inr (net', cameras', files' - {imgPath info} - {path}, deferredImages, None))
            else Some (Inr (net', cameras', files' - {path},
                   deferredImages @
                     [info\<lparr>timestamp := ts, oldWait := oldWait info + (ts - timestamp info)\<rparr>],
                   None)))
         \<and> min (2 * (10::int) * 60) 300 = 300 \<and> min (2 * (1::int) * 60) 300 = 120"
proof -
  have saved: "path \<in> files'"
    using assms(1) by (rule getNextImage_saved)
  have order: "oldWait info + (ts - timestamp info) \<ge> min (2 * minusMinutes * 60) 300 \<longleftrightarrow>
      \<not> (ts - timestamp info + oldWait info < min (2 * 60 * minusMinutes) (5 * 60))"
    by auto
  show ?thesis
    unfolding order using assms saved
    by (simp add: genDiffImageFromDeferred_def Let_def os_remove_def)
qed

text \<open>
  C6. The path of a download is built from the camera and the second of the clock, so a
  refetch in the second of the capture is saved under the path of the deferred entry.
  Camera peak1 is captured at second 100 and, the queue being full, resolved in that
  second with an unchanged digest: \<open>0 + 0 < min (2 * 60) 300\<close>, the entry goes back to
  the tail of the queue, and \<open>os.remove\<close> of the refetched path deletes the file the
  entry names, although the entry was not discarded. When the entry is resolved again at
  second 230 with the digest still unchanged, \<open>130 \<ge> 120\<close> and \<open>os.remove\<close> of its file
  raises \<open>FileNotFoundError\<close> instead of discarding it.
\<close>

theorem C6_requeued_entry_loses_its_file:
  "diffModeTick (\<lambda>p m. p @ ''_diff'')
     [\<lparr>counterValue = 0, clock = 100, savedAs = ''peak1_100.jpg'', outcome = Downloaded ''h1''\<rparr>]
     [\<lparr>cam_name = ''peak1'', cam_url = ''u1'', cam_md5 = Some ''h1''\<rparr>]
     [\<lparr>timestamp = 100, cameraID = ''peak1'', imgPath = ''peak1_100.jpg'', md5 = ''h1'',
       oldWait = 0\<rparr>]
     {''peak1_100.jpg''}
     \<lparr>totalTime = 0, numSamples = 0, timePerSample = 60\<rparr> 1 (201 / 2) =
   Some (Inr ([],
     [\<lparr>cam_name = ''peak1'', cam_url = ''u1'', cam_md5 = Some ''h1''\<rparr>],
     {},
     [\<lparr>timestamp = 100, cameraID = ''peak1'', imgPath = ''peak1_100.jpg'', md5 = ''h1'',
       oldWait = 0\<rparr>],
     None))
   \<and> diffModeTick (\<lambda>p m. p @ ''_diff'')
     [\<lparr>counterValue = 0, clock = 230, savedAs = ''peak1_230.jpg'', outcome = Downloaded ''h1''\<rparr>]
     [\<lparr>cam_name = ''peak1'', cam_url = ''u1'', cam_md5 = Some ''h1''\<rparr>]
     [\<lparr>timestamp = 100, cameraID = ''peak1'', imgPath = ''peak1_100.jpg'', md5 = ''h1'',
       oldWait = 0\<rparr>]
     {}
     \<lparr>totalTime = 0, numSamples = 0, timePerSample = 60\<rparr> 1 (461 / 2) =
   Some (Inl FileNotFoundError)"
proof -
  have sixty: "float_round 60 = 60"
    using float_round_of_int [of 60] by simp
  show ?thesis
    by (simp add: diffModeTick_def getDeferrredImgageInfo_def expectedDrainSeconds_def sixty
        genDiffImageFromDeferred_def os_remove_def Let_def)
qed

subsection \<open>Alert cool-down\<close>

text \<open>
  C5. \<open>checkAndUpdateAlerts\<close> returns false and leaves the alerts table as it was
  exactly when the table holds a row of the same camera with a timestamp strictly greater
  than \<open>timestamp - 7200\<close>; otherwise it appends one row and returns true. So after a
  first alert at \<open>t\<close>, a second at \<open>t + 7199\<close> is suppressed and one at \<open>t + 7201\<close> is
  allowed.
\<close>

theorem C5_alert_cooldown:
  "checkAndUpdateAlerts db cam ts ids =
     (if \<exists>r \<in> set (alerts db). al_CameraName r = cam \<and> al_Timestamp r > ts - 7200
      then (db\<lparr>queryLog := queryLog db @ [RecentAlerts cam (ts - 7200)]\<rparr>, False)
      else (db\<lparr>queryLog := queryLog db @ [RecentAlerts cam (ts - 7200)],
               alerts := alerts db @
                 [\<lparr>al_CameraName = cam, al_Timestamp = ts,
                   al_ImageID = (case ids of [] \<Rightarrow> [] | x # _ \<Rightarrow> x)\<rparr>]\<rparr>, True))
   \<and> (\<not> (\<exists>r \<in> set (alerts db). al_CameraName r = cam \<and> al_Timestamp r > ts - 7200) \<longrightarrow>
        snd (checkAndUpdateAlerts db cam ts ids)
      \<and> \<not> snd (checkAndUpdateAlerts (fst (checkAndUpdateAlerts db cam ts ids)) cam (ts + 7199) ids')
      \<and> snd (checkAndUpdateAlerts (fst (checkAndUpdateAlerts db cam ts ids)) cam (ts + 7201) ids'))"
proof -
  let ?recent = "\<lambda>d t. \<exists>r \<in> set (alerts d). al_CameraName r = cam \<and> al_Timestamp r > t - 7200"
  have step: "checkAndUpdateAlerts d cam t js =
     (if ?recent d t
      then (d\<lparr>queryLog := queryLog d @ [RecentAlerts cam (t - 7200)]\<rparr>, False)
      else (d\<lparr>queryLog := queryLog d @ [RecentAlerts cam (t - 7200)],
              alerts := alerts d @
                 [\<lparr>al_CameraName = cam, al_Timestamp = t,
                   al_ImageID = (case js of [] \<Rightarrow> [] | x # _ \<Rightarrow> x)\<rparr>]\<rparr>, True))"
    for d t js
    by (auto simp: checkAndUpdateAlerts_def queryRecentAlerts_def filter_empty_conv)
  let ?db1 = "db\<lparr>queryLog := queryLog db @ [RecentAlerts cam (ts - 7200)],
               alerts := alerts db @
                 [\<lparr>al_CameraName = cam, al_Timestamp = ts,
                   al_ImageID = (case ids of [] \<Rightarrow> [] | x # _ \<Rightarrow> x)\<rparr>]\<rparr>"
  have later: "snd (checkAndUpdateAlerts db cam ts ids)
      \<and> \<not> snd (checkAndUpdateAlerts (fst (checkAndUpdateAlerts db cam ts ids)) cam (ts + 7199) ids')
      \<and> snd (checkAndUpdateAlerts (fst (checkAndUpdateAlerts db cam ts ids)) cam (ts + 7201) ids')"
    if quiet: "\<not> ?recent db ts"
  proof -
    have first: "checkAndUpdateAlerts db cam ts ids = (?db1, True)"
      using quiet by (simp only: step if_False)
    have old: "al_Timestamp r \<le> ts - 7200" if "r \<in> set (alerts db)" "al_CameraName r = cam" for r
      using quiet that by fastforce
    have suppressed: "?recent ?db1 (ts + 7199)"
      by simp
    have allowed: "\<not> ?recent ?db1 (ts + 7201)"
    proof
      assume "?recent ?db1 (ts + 7201)"
      then obtain r where r: "r \<in> set (alerts db) \<or> al_Timestamp r = ts"
          "al_CameraName r = cam" "al_Timestamp r > ts + 1"
        by auto
      then show False
        using old [of r] by auto
    qed
    have "\<not> snd (checkAndUpdateAlerts ?db1 cam (ts + 7199) ids')"
      using suppressed by (simp only: step if_True snd_conv not_False_eq_True)
    moreover have "snd (checkAndUpdateAlerts ?db1 cam (ts + 7201) ids')"
      using allowed by (simp only: step if_False snd_conv)
    ultimately show ?thesis
      by (simp only: first fst_conv snd_conv simp_thms)
  qed
  show ?thesis
    using step [of db ts ids] later by blast
qed

theorem C5_alert_cooldown_witness:
  "snd (checkAndUpdateAlerts \<lparr>scores = [], detections = [], alerts = [], queryLog = []\<rparr>
          ''peak1'' 100000 [''id1''])
   \<and> \<not> snd (checkAndUpdateAlerts
          (fst (checkAndUpdateAlerts \<lparr>scores = [], detections = [], alerts = [], queryLog = []\<rparr>
                  ''peak1'' 100000 [''id1'']))
          ''peak1'' (100000 + 7199) [])
   \<and> snd (checkAndUpdateAlerts
          (fst (checkAndUpdateAlerts \<lparr>scores = [], detections = [], alerts = [], queryLog = []\<rparr>
                  ''peak1'' 100000 [''id1'']))
          ''peak1'' (100000 + 7201) [])"
  using C5_alert_cooldown
    [of "\<lparr>scores = [], detections = [], alerts = [], queryLog = []\<rparr>" "''peak1''" 100000
        "[''id1'']" "[]"]
  by (simp add: checkAndUpdateAlerts_def queryRecentAlerts_def)

subsection \<open>The post-classification filter\<close>

text \<open>
  C9. For a non-empty list of segments whose highest score is below 0.5, \<open>postFilter\<close>
  returns no segment and gives back the database as it received it, with no query added
  to the log, whatever the tables hold.
\<close>

theorem C9_fast_path:
  assumes "segments \<noteq> []" and "Max (score ` set segments) < 0.5"
  shows "postFilter sqlAvg secondsOfDay db cam ts segments = Inr (db, segments, None)"
proof (cases segments)
  case Nil
  with assms(1) show ?thesis by simp
next
  case (Cons first rest)
  have "score first \<le> Max (score ` set segments)"
    unfolding Cons by simp
  with assms(2) have "score first < 0.5"
    by simp
  then show ?thesis
    by (simp add: postFilter_def Cons)
qed

theorem C9_fast_path_witness:
  "postFilter sequentialAvg (\<lambda>t. t mod 86400)
     \<lparr>scores = [], detections = [], alerts = [], queryLog = []\<rparr> ''peak1'' 1000000
     [\<lparr>MinX = 0, MinY = 0, MaxX = 299, MaxY = 299, score = 0.4,
       HistAvg = None, HistMax = None, HistNumSamples = None\<rparr>,
      \<lparr>MinX = 300, MinY = 0, MaxX = 599, MaxY = 299, score = 0.3,
       HistAvg = None, HistMax = None, HistNumSamples = None\<rparr>] =
   Inr (\<lparr>scores = [], detections = [], alerts = [], queryLog = []\<rparr>,
        [\<lparr>MinX = 0, MinY = 0, MaxX = 299, MaxY = 299, score = 0.4,
          HistAvg = None, HistMax = None, HistNumSamples = None\<rparr>,
         \<lparr>MinX = 300, MinY = 0, MaxX = 599, MaxY = 299, score = 0.3,
          HistAvg = None, HistMax = None, HistNumSamples = None\<rparr>],
        None)"
  using C9_fast_path
    [of "[\<lparr>MinX = 0, MinY = 0, MaxX = 299, MaxY = 299, score = 0.4,
           HistAvg = None, HistMax = None, HistNumSamples = None\<rparr>,
          \<lparr>MinX = 300, MinY = 0, MaxX = 599, MaxY = 299, score = 0.3,
           HistAvg = None, HistMax = None, HistNumSamples = None\<rparr>]"
        sequentialAvg
        "\<lambda>t. t mod 86400" "\<lparr>scores = [], detections = [], alerts = [], queryLog = []\<rparr>"
        "''peak1''" 1000000]
  by simp

lemma rowLoop_no_rows: "rowLoop i [] st = st"
  by simp

lemma segmentLoop_no_rows: "segmentLoop [] is st = st"
  by (induction "is") simp_all

lemma postFilter_empty_result:
  assumes "segments \<noteq> []"
      and "snd (queryScoresHistory sqlAvg db cam (ts - 60 * 60 * 84) (ts - 60 * 60 * 12)
                  (secondsOfDay ts - 60 * 60) (secondsOfDay ts + 60 * 60)) = []"
  shows "\<exists>db'. postFilter sqlAvg secondsOfDay db cam ts segments = Inr (db', segments, None)
               \<and> scores db' = scores db \<and> detections db' = detections db \<and> alerts db' = alerts db"
proof (cases segments)
  case Nil
  with assms(1) show ?thesis by simp
next
  case (Cons first rest)
  obtain db' rows where q: "queryScoresHistory sqlAvg db cam (ts - 302400) (ts - 43200)
                  (secondsOfDay ts - 3600) (secondsOfDay ts + 3600) = (db', rows)"
    by (cases "queryScoresHistory sqlAvg db cam (ts - 302400) (ts - 43200)
                  (secondsOfDay ts - 3600) (secondsOfDay ts + 3600)")
  with assms(2) have rows: "rows = []" by simp
  from q have same: "scores db' = scores db" "detections db' = detections db" "alerts db' = alerts db"
    by (auto simp: queryScoresHistory_def Let_def)
  show ?thesis
    using same by (simp add: postFilter_def Cons Let_def q rows segmentLoop_no_rows del: upt.simps)
qed

text \<open>
  C1 as stated fails. With empty tables and the scores 0.92 and 0.3, \<open>postFilter\<close>
  issues the history query, finds no row to compare a segment with, and returns no
  segment; \<open>recordFilterReport\<close> then writes the two score rows and no detection.
\<close>

theorem C1_counterexample:
  "postFilter sequentialAvg (\<lambda>t. t mod 86400)
     \<lparr>scores = [], detections = [], alerts = [], queryLog = []\<rparr> ''peak1'' 1000000
     [\<lparr>MinX = 0, MinY = 0, MaxX = 299, MaxY = 299, score = 0.92,
       HistAvg = None, HistMax = None, HistNumSamples = None\<rparr>,
      \<lparr>MinX = 300, MinY = 0, MaxX = 599, MaxY = 299, score = 0.3,
       HistAvg = None, HistMax = None, HistNumSamples = None\<rparr>] =
   Inr (\<lparr>scores = [], detections = [], alerts = [],
         queryLog = [ScoresHistory ''peak1'' 697600 956800 46000 53200]\<rparr>,
        [\<lparr>MinX = 0, MinY = 0, MaxX = 299, MaxY = 299, score = 0.92,
          HistAvg = None, HistMax = None, HistNumSamples = None\<rparr>,
         \<lparr>MinX = 300, MinY = 0, MaxX = 599, MaxY = 299, score = 0.3,
          HistAvg = None, HistMax = None, HistNumSamples = None\<rparr>],
        None)
   \<and> map_sum id (\<lambda>(db', alerted). (detections db', alerted))
       (recordFilterReport sequentialAvg (\<lambda>t. t mod 86400)
          \<lparr>scores = [], detections = [], alerts = [], queryLog = []\<rparr> ''peak1'' 1000000
          [\<lparr>MinX = 0, MinY = 0, MaxX = 299, MaxY = 299, score = 0.92,
            HistAvg = None, HistMax = None, HistNumSamples = None\<rparr>,
           \<lparr>MinX = 300, MinY = 0, MaxX = 599, MaxY = 299, score = 0.3,
            HistAvg = None, HistMax = None, HistNumSamples = None\<rparr>] 0 [])
     = Inr ([], False)"
  by (simp add: postFilter_def recordFilterReport_def recordScores_def queryScoresHistory_def
      Let_def)

text \<open>
  C1, amended. For a camera with no historical score rows, and scores 0.92 and 0.3 for
  two segments, \<open>postFilter\<close> returns no segment, and \<open>recordFilterReport\<close> records no
  detection and no alert.
\<close>

theorem C1_no_history_no_detection:
  assumes "\<forall>r \<in> set (scores db). sc_CameraName r \<noteq> cam"
      and "score s1 = 0.92" and "score s2 = 0.3"
  shows "(\<exists>db'. postFilter sqlAvg secondsOfDay db cam ts [s1, s2] = Inr (db', [s1, s2], None))
       \<and> (\<exists>db'. recordFilterReport sqlAvg secondsOfDay db cam ts [s1, s2] minusMinutes driveFileIDs
                    = Inr (db', False)
                \<and> detections db' = detections db \<and> alerts db' = alerts db)"
proof -
  let ?q = "\<lambda>d. snd (queryScoresHistory sqlAvg d cam (ts - 60 * 60 * 84) (ts - 60 * 60 * 12)
                  (secondsOfDay ts - 60 * 60) (secondsOfDay ts + 60 * 60))"
  have none: "filter (\<lambda>r. sc_CameraName r = cam \<and> P r) (scores db) = []" for P
    using assms(1) by (auto simp: filter_empty_conv)
  have direct: "?q db = []"
    by (simp add: queryScoresHistory_def Let_def none)
  let ?db1 = "recordScores secondsOfDay db cam ts [s1, s2] minusMinutes"
  have recorded: "?q ?db1 = []"
    by (simp add: queryScoresHistory_def Let_def recordScores_def none)
  have tables: "detections ?db1 = detections db" "alerts ?db1 = alerts db"
    by (simp_all add: recordScores_def)
  from postFilter_empty_result [of "[s1, s2]" sqlAvg db cam ts secondsOfDay] direct
  have first: "\<exists>db'. postFilter sqlAvg secondsOfDay db cam ts [s1, s2] = Inr (db', [s1, s2], None)"
    by auto
  from postFilter_empty_result [of "[s1, s2]" sqlAvg ?db1 cam ts secondsOfDay] recorded
  obtain db2 where db2: "postFilter sqlAvg secondsOfDay ?db1 cam ts [s1, s2] = Inr (db2, [s1, s2], None)"
      "detections db2 = detections ?db1" "alerts db2 = alerts ?db1"
    by auto
  have "recordFilterReport sqlAvg secondsOfDay db cam ts [s1, s2] minusMinutes driveFileIDs = Inr (db2, False)"
    by (simp add: recordFilterReport_def Let_def db2(1))
  with db2 tables first show ?thesis
    by simp
qed

theorem C1_no_history_no_detection_witness:
  "\<exists>db'. postFilter sequentialAvg (\<lambda>t. t mod 86400)
     \<lparr>scores = [], detections = [], alerts = [], queryLog = []\<rparr> ''peak1'' 1000000
     [\<lparr>MinX = 0, MinY = 0, MaxX = 299, MaxY = 299, score = 0.92,
       HistAvg = None, HistMax = None, HistNumSamples = None\<rparr>,
      \<lparr>MinX = 300, MinY = 0, MaxX = 599, MaxY = 299, score = 0.3,
       HistAvg = None, HistMax = None, HistNumSamples = None\<rparr>] =
   Inr (db',
        [\<lparr>MinX = 0, MinY = 0, MaxX = 299, MaxY = 299, score = 0.92,
          HistAvg = None, HistMax = None, HistNumSamples = None\<rparr>,
         \<lparr>MinX = 300, MinY = 0, MaxX = 599, MaxY = 299, score = 0.3,
          HistAvg = None, HistMax = None, HistNumSamples = None\<rparr>],
        None)"
  using C1_no_history_no_detection
    [of "\<lparr>scores = [], detections = [], alerts = [], queryLog = []\<rparr>" "''peak1''"
        "\<lparr>MinX = 0, MinY = 0, MaxX = 299, MaxY = 299, score = 0.92,
          HistAvg = None, HistMax = None, HistNumSamples = None\<rparr>"
        "\<lparr>MinX = 300, MinY = 0, MaxX = 599, MaxY = 299, score = 0.3,
          HistAvg = None, HistMax = None, HistNumSamples = None\<rparr>"
        sequentialAvg "\<lambda>t. t mod 86400" 1000000 0 "[]"]
  by simp

subsection \<open>The filter loop\<close>

lemma rowStep_length [simp]: "length (segs (rowStep i row st)) = length (segs st)"
  by (simp add: rowStep_def Let_def)

lemma rowStep_score [simp]: "score (segs (rowStep i row st) ! j) = score (segs st ! j)"
  by (cases "i < length (segs st)")
     (simp_all add: rowStep_def Let_def nth_list_update list_update_beyond)

lemma rowStep_unchanged:
  "\<not> (sameBox row (segs st ! i) \<and> score (segs st ! i) > threshold (maxs row)
       \<and> score (segs st ! i) > maxFireScore st)
   \<Longrightarrow> rowStep i row st = st"
  by (auto simp: rowStep_def Let_def)

lemma rowStep_selects:
  "sameBox row (segs st ! i) \<Longrightarrow> score (segs st ! i) > threshold (maxs row)
   \<Longrightarrow> score (segs st ! i) > maxFireScore st
   \<Longrightarrow> rowStep i row st =
       \<lparr>segs = (segs st)[i := attachHistory row (segs st ! i)],
        maxFireSegment = Some i, maxFireScore = score (segs st ! i)\<rparr>"
  by (simp add: rowStep_def Let_def attachHistory_def)

lemma rowLoop_append: "rowLoop i (xs @ ys) st = rowLoop i ys (rowLoop i xs st)"
  by (induction xs arbitrary: st) simp_all

lemma rowLoop_unchanged:
  "\<forall>row \<in> set rows. \<not> (sameBox row (segs st ! i) \<and> score (segs st ! i) > threshold (maxs row)
                          \<and> score (segs st ! i) > maxFireScore st)
   \<Longrightarrow> rowLoop i rows st = st"
  by (induction rows) (simp_all add: rowStep_unchanged)

lemma rowLoop_selects:
  assumes i: "i < length (segs st)"
      and before: "\<forall>r \<in> set pre. \<not> (sameBox r (segs st ! i) \<and> score (segs st ! i) > threshold (maxs r))"
      and box: "sameBox row (segs st ! i)"
      and above: "score (segs st ! i) > threshold (maxs row)"
      and best: "score (segs st ! i) > maxFireScore st"
  shows "rowLoop i (pre @ row # post) st =
           \<lparr>segs = (segs st)[i := attachHistory row (segs st ! i)],
            maxFireSegment = Some i, maxFireScore = score (segs st ! i)\<rparr>"
proof -
  let ?st' = "\<lparr>segs = (segs st)[i := attachHistory row (segs st ! i)],
              maxFireSegment = Some i, maxFireScore = score (segs st ! i)\<rparr>"
  have "rowLoop i pre st = st"
    using before by (intro rowLoop_unchanged) auto
  moreover have "rowStep i row st = ?st'"
    using box above best by (rule rowStep_selects)
  moreover have "rowLoop i post ?st' = ?st'"
    using i by (intro rowLoop_unchanged) (simp add: attachHistory_def)
  ultimately show ?thesis
    by (simp add: rowLoop_append)
qed

lemma segmentLoop_unchanged:
  "\<forall>i \<in> set is. score (segs st ! i) < 0.5 \<or>
      (\<forall>row \<in> set rows. \<not> (sameBox row (segs st ! i) \<and> score (segs st ! i) > threshold (maxs row)
                             \<and> score (segs st ! i) > maxFireScore st))
   \<Longrightarrow> segmentLoop rows is st = st"
proof (induction "is")
  case Nil
  show ?case by simp
next
  case (Cons i "is")
  show ?case
  proof (cases "score (segs st ! i) < 0.5")
    case True
    then show ?thesis by simp
  next
    case False
    with Cons.prems have "rowLoop i rows st = st"
      by (intro rowLoop_unchanged) auto
    with False Cons show ?thesis by simp
  qed
qed

lemma segmentLoop_skip:
  "\<forall>i \<in> set is. \<not> score (segs st ! i) < 0.5 \<and>
      (\<forall>row \<in> set rows. \<not> (sameBox row (segs st ! i) \<and> score (segs st ! i) > threshold (maxs row)
                             \<and> score (segs st ! i) > maxFireScore st))
   \<Longrightarrow> segmentLoop rows (is @ js) st = segmentLoop rows js st"
proof (induction "is")
  case Nil
  show ?case by simp
next
  case (Cons i "is")
  then have "rowLoop i rows st = st"
    by (intro rowLoop_unchanged) auto
  with Cons show ?case by simp
qed

lemma segmentLoop_none_clears:
  assumes "\<forall>s \<in> set segments. \<not> (score s \<ge> 0.5 \<and> clears rows s)"
  shows "segmentLoop rows [0 ..< length segments]
           \<lparr>segs = segments, maxFireSegment = None, maxFireScore = 0\<rparr> =
         \<lparr>segs = segments, maxFireSegment = None, maxFireScore = 0\<rparr>"
proof (rule segmentLoop_unchanged, rule ballI)
  fix i assume "i \<in> set [0 ..< length segments]"
  then have "segments ! i \<in> set segments" by simp
  with assms have "\<not> (score (segments ! i) \<ge> 0.5 \<and> clears rows (segments ! i))"
    by blast
  then show "score (segs \<lparr>segs = segments, maxFireSegment = None, maxFireScore = 0\<rparr> ! i) < 0.5 \<or>
      (\<forall>row \<in> set rows.
         \<not> (sameBox row (segs \<lparr>segs = segments, maxFireSegment = None, maxFireScore = 0\<rparr> ! i)
            \<and> score (segs \<lparr>segs = segments, maxFireSegment = None, maxFireScore = 0\<rparr> ! i)
                > threshold (maxs row)
            \<and> score (segs \<lparr>segs = segments, maxFireSegment = None, maxFireScore = 0\<rparr> ! i)
                > maxFireScore \<lparr>segs = segments, maxFireSegment = None, maxFireScore = 0\<rparr>))"
    by (auto simp: clears_def)
qed

lemma segmentLoop_first_clearing:
  assumes sorted: "sorted_wrt (\<lambda>a b. score a \<ge> score b) segments"
      and k: "k < length segments"
      and half: "score (segments ! k) \<ge> 0.5"
      and clear: "clears rows (segments ! k)"
      and least: "\<forall>j < k. \<not> clears rows (segments ! j)"
  shows "\<exists>row \<in> set rows. sameBox row (segments ! k) \<and> score (segments ! k) > threshold (maxs row) \<and>
           segmentLoop rows [0 ..< length segments]
             \<lparr>segs = segments, maxFireSegment = None, maxFireScore = 0\<rparr> =
           \<lparr>segs = segments[k := attachHistory row (segments ! k)],
            maxFireSegment = Some k, maxFireScore = score (segments ! k)\<rparr>"
proof -
  let ?st0 = "\<lparr>segs = segments, maxFireSegment = None, maxFireScore = 0\<rparr>"
  let ?Q = "\<lambda>r. sameBox r (segments ! k) \<and> score (segments ! k) > threshold (maxs r)"
  from clear have "\<exists>r \<in> set rows. ?Q r"
    by (simp add: clears_def)
  then have "\<exists>pre row post. rows = pre @ row # post \<and> ?Q row \<and> (\<forall>r \<in> set pre. \<not> ?Q r)"
    by (rule split_list_first_prop)
  then obtain pre row post where rows: "rows = pre @ row # post"
      and row: "?Q row" and pre: "\<forall>r \<in> set pre. \<not> ?Q r"
    by blast
  let ?st1 = "\<lparr>segs = segments[k := attachHistory row (segments ! k)],
              maxFireSegment = Some k, maxFireScore = score (segments ! k)\<rparr>"
  have indices: "[0 ..< length segments] = [0 ..< k] @ k # [Suc k ..< length segments]"
    using k by (metis le0 less_imp_le_nat upt_add_eq_append upt_conv_Cons le_add_diff_inverse plus_nat.add_0)
  have above: "score (segments ! j) \<ge> score (segments ! k)" if "j < k" for j
    using sorted that k by (simp add: sorted_wrt_iff_nth_less)
  have below: "score (segments ! j) \<le> score (segments ! k)" if "k < j" "j < length segments" for j
    using sorted that by (simp add: sorted_wrt_iff_nth_less)
  have skip: "segmentLoop rows ([0 ..< k] @ k # [Suc k ..< length segments]) ?st0 =
      segmentLoop rows (k # [Suc k ..< length segments]) ?st0"
  proof (rule segmentLoop_skip, rule ballI)
    fix j assume "j \<in> set [0 ..< k]"
    then have j: "j < k" by simp
    with least have "\<not> clears rows (segments ! j)" by blast
    moreover from above [OF j] half have "\<not> score (segments ! j) < 0.5" by simp
    ultimately show "\<not> score (segs ?st0 ! j) < 0.5 \<and>
        (\<forall>r \<in> set rows. \<not> (sameBox r (segs ?st0 ! j) \<and> score (segs ?st0 ! j) > threshold (maxs r)
                               \<and> score (segs ?st0 ! j) > maxFireScore ?st0))"
      by (auto simp: clears_def)
  qed
  have at_k: "rowLoop k rows ?st0 = ?st1"
    unfolding rows
    using rowLoop_selects [of k ?st0 pre row post] k pre row half by simp
  have rest: "segmentLoop rows [Suc k ..< length segments] ?st1 = ?st1"
  proof (rule segmentLoop_unchanged, rule ballI)
    fix j assume "j \<in> set [Suc k ..< length segments]"
    then have j: "k < j" "j < length segments" by simp_all
    then have "score (segs ?st1 ! j) = score (segments ! j)" by simp
    with below [OF j] have "\<not> score (segs ?st1 ! j) > maxFireScore ?st1" by simp
    then show "score (segs ?st1 ! j) < 0.5 \<or>
        (\<forall>r \<in> set rows. \<not> (sameBox r (segs ?st1 ! j) \<and> score (segs ?st1 ! j) > threshold (maxs r)
                               \<and> score (segs ?st1 ! j) > maxFireScore ?st1))"
      by blast
  qed
  have "segmentLoop rows [0 ..< length segments] ?st0 = ?st1"
    using half by (simp only: indices skip) (simp add: at_k rest del: upt.simps)
  with row rows show ?thesis by auto
qed

subsection \<open>The rows of the history query\<close>

lemma historyRows_grouped:
  "historyRows sqlAvg secondsOfDay db cam ts =
     map (groupRow sqlAvg (historyWindow secondsOfDay db cam ts))
       (remdups (map scoreBox (historyWindow secondsOfDay db cam ts)))"
  unfolding historyRows_def queryScoresHistory_def historyWindow_def Let_def by (rule snd_conv)

lemma groupRow_box:
  "sameBox (groupRow sqlAvg selected box) s \<longleftrightarrow> box = (MinX s, MinY s, MaxX s, MaxY s)"
  by (cases box) (auto simp: groupRow_def sameBox_def Let_def)

lemma groupRow_stats:
  "avgs (groupRow sqlAvg selected box) =
     sqlAvg (map sc_Score (filter (\<lambda>r. scoreBox r = box) selected))"
  "maxs (groupRow sqlAvg selected box) =
     Max (set (map sc_Score (filter (\<lambda>r. scoreBox r = box) selected)))"
  "cnt (groupRow sqlAvg selected box) =
     int (length (map sc_Score (filter (\<lambda>r. scoreBox r = box) selected)))"
  by (cases box; simp add: groupRow_def Let_def)+

lemma historyRows_stats:
  assumes "row \<in> set (historyRows sqlAvg secondsOfDay db cam ts)" and "sameBox row s"
  shows "boxScores secondsOfDay db cam ts s \<noteq> []"
    and "avgs row = sqlAvg (boxScores secondsOfDay db cam ts s)"
    and "maxs row = Max (set (boxScores secondsOfDay db cam ts s))"
    and "cnt row = int (length (boxScores secondsOfDay db cam ts s))"
proof -
  let ?window = "historyWindow secondsOfDay db cam ts"
  from assms(1) have "row \<in> groupRow sqlAvg ?window ` (scoreBox ` set ?window)"
    unfolding historyRows_grouped by simp
  then obtain box where box: "box \<in> scoreBox ` set ?window"
    and row: "row = groupRow sqlAvg ?window box"
    by blast
  from assms(2) have same: "box = (MinX s, MinY s, MaxX s, MaxY s)"
    unfolding row groupRow_box .
  from box obtain r where "r \<in> set ?window" "scoreBox r = box" by auto
  then have "filter (\<lambda>r. scoreBox r = box) ?window \<noteq> []"
    by (auto simp: filter_empty_conv)
  then show "boxScores secondsOfDay db cam ts s \<noteq> []"
    by (simp add: boxScores_def same)
  show "avgs row = sqlAvg (boxScores secondsOfDay db cam ts s)"
    and "maxs row = Max (set (boxScores secondsOfDay db cam ts s))"
    and "cnt row = int (length (boxScores secondsOfDay db cam ts s))"
    unfolding row groupRow_stats boxScores_def same by (rule refl)+
qed

lemma historyRows_has_row:
  assumes "boxScores secondsOfDay db cam ts s \<noteq> []"
  shows "\<exists>row \<in> set (historyRows sqlAvg secondsOfDay db cam ts). sameBox row s"
proof -
  let ?window = "historyWindow secondsOfDay db cam ts"
  let ?box = "(MinX s, MinY s, MaxX s, MaxY s)"
  from assms obtain r where "r \<in> set ?window" "scoreBox r = ?box"
    by (auto simp: boxScores_def filter_empty_conv)
  then have "?box \<in> scoreBox ` set ?window" by force
  then have "groupRow sqlAvg ?window ?box \<in> set (historyRows sqlAvg secondsOfDay db cam ts)"
    unfolding historyRows_grouped by simp
  moreover have "sameBox (groupRow sqlAvg ?window ?box) s"
    by (simp add: groupRow_box)
  ultimately show ?thesis by blast
qed

lemma clears_clearsBox:
  "clears (historyRows sqlAvg secondsOfDay db cam ts) s \<longleftrightarrow> clearsBox secondsOfDay db cam ts s"
proof
  assume "clears (historyRows sqlAvg secondsOfDay db cam ts) s"
  then obtain row where "row \<in> set (historyRows sqlAvg secondsOfDay db cam ts)"
      "sameBox row s" "score s > threshold (maxs row)"
    by (auto simp: clears_def)
  with historyRows_stats(1,3) [of row sqlAvg secondsOfDay db cam ts s]
  show "clearsBox secondsOfDay db cam ts s"
    by (simp add: clearsBox_def)
next
  assume box: "clearsBox secondsOfDay db cam ts s"
  then obtain row where row: "row \<in> set (historyRows sqlAvg secondsOfDay db cam ts)" "sameBox row s"
    using historyRows_has_row [of secondsOfDay db cam ts s sqlAvg] by (auto simp: clearsBox_def)
  with box historyRows_stats(3) [OF row]
  show "clears (historyRows sqlAvg secondsOfDay db cam ts) s"
    by (auto simp: clears_def clearsBox_def)
qed

lemma attachHistory_withHistory:
  assumes "row \<in> set (historyRows sqlAvg secondsOfDay db cam ts)" and "sameBox row s"
  shows "attachHistory row s = withHistory sqlAvg (boxScores secondsOfDay db cam ts s) s"
  using historyRows_stats(2-4) [OF assms]
  by (simp add: attachHistory_def withHistory_def)

lemma boxScores_nonneg:
  assumes "\<forall>r \<in> set (scores db). 0 \<le> sc_Score r"
      and "boxScores secondsOfDay db cam ts s \<noteq> []"
  shows "0 \<le> Max (set (boxScores secondsOfDay db cam ts s))"
proof -
  from assms(2) have "Max (set (boxScores secondsOfDay db cam ts s))
      \<in> set (boxScores secondsOfDay db cam ts s)"
    by (intro Max_in) simp_all
  then obtain r where "r \<in> set (scores db)"
      "Max (set (boxScores secondsOfDay db cam ts s)) = sc_Score r"
    by (auto simp: boxScores_def historyWindow_def)
  with assms(1) show ?thesis by auto
qed

lemma threshold_at_least_half:
  assumes "0 \<le> m"
  shows "0.5 \<le> threshold m"
proof -
  have "pow2 0 \<le> m + 1"
    using assms by (simp add: pow2_def)
  then have "pow2 0 \<le> float_round (m + 1)"
    by (rule float_round_ge_pow2) simp_all
  then have "pow2 (- 1) \<le> float_round (m + 1) / 2"
    by (simp add: pow2_def)
  then have "pow2 (- 1) \<le> float_round (float_round (m + 1) / 2)"
    by (rule float_round_ge_pow2) simp_all
  then show ?thesis
    by (simp add: threshold_def pow2_def max_def)
qed

lemma clearsBox_same_box_score:
  "MinX s = MinX t \<Longrightarrow> MinY s = MinY t \<Longrightarrow> MaxX s = MaxX t \<Longrightarrow> MaxY s = MaxY t
   \<Longrightarrow> score s = score t
   \<Longrightarrow> clearsBox secondsOfDay db cam ts s = clearsBox secondsOfDay db cam ts t"
  by (simp add: clearsBox_def boxScores_def)

lemma postFilter_slow_path:
  assumes "segments \<noteq> []" and "\<not> score (hd segments) < 0.5"
  shows "\<exists>db'. postFilter sqlAvg secondsOfDay db cam ts segments =
           (let st = segmentLoop (historyRows sqlAvg secondsOfDay db cam ts) [0 ..< length segments]
                       \<lparr>segs = segments, maxFireSegment = None, maxFireScore = 0\<rparr>
            in Inr (db', segs st, map_option (\<lambda>i. segs st ! i) (maxFireSegment st)))"
  using assms
  by (cases segments)
     (auto simp: postFilter_def historyRows_def Let_def split: prod.splits simp del: upt.simps)

lemma postFilter_sorted_cases:
  assumes sorted: "sorted_wrt (\<lambda>a b. score a \<ge> score b) segments"
      and nonempty: "segments \<noteq> []"
      and half: "\<forall>s \<in> set segments. clears (historyRows sqlAvg secondsOfDay db cam ts) s \<longrightarrow> score s > 0.5"
  obtains (nothing) db' where
      "postFilter sqlAvg secondsOfDay db cam ts segments = Inr (db', segments, None)"
      "\<forall>s \<in> set segments. \<not> clears (historyRows sqlAvg secondsOfDay db cam ts) s"
  | (selected) db' k row where
      "k < length segments" "row \<in> set (historyRows sqlAvg secondsOfDay db cam ts)"
      "sameBox row (segments ! k)" "score (segments ! k) > threshold (maxs row)"
      "\<forall>j < k. \<not> clears (historyRows sqlAvg secondsOfDay db cam ts) (segments ! j)"
      "postFilter sqlAvg secondsOfDay db cam ts segments =
         Inr (db', segments[k := attachHistory row (segments ! k)],
              Some (attachHistory row (segments ! k)))"
proof -
  let ?rows = "historyRows sqlAvg secondsOfDay db cam ts"
  let ?st0 = "\<lparr>segs = segments, maxFireSegment = None, maxFireScore = 0\<rparr>"
  show thesis
  proof (cases "score (hd segments) < 0.5")
    case True
    from nonempty obtain first rest where seg: "segments = first # rest"
      by (cases segments) auto
    have "score s < 0.5" if "s \<in> set segments" for s
      using sorted that True unfolding seg by auto
    with half have "\<forall>s \<in> set segments. \<not> clears ?rows s"
      by fastforce
    moreover have "postFilter sqlAvg secondsOfDay db cam ts segments = Inr (db, segments, None)"
      using True by (simp add: postFilter_def seg)
    ultimately show thesis using that(1) by blast
  next
    case False
    with nonempty obtain db' where run: "postFilter sqlAvg secondsOfDay db cam ts segments =
           (let st = segmentLoop ?rows [0 ..< length segments] ?st0
            in Inr (db', segs st, map_option (\<lambda>i. segs st ! i) (maxFireSegment st)))"
      using postFilter_slow_path by blast
    show thesis
    proof (cases "\<exists>k < length segments. clears ?rows (segments ! k)")
      case no: False
      then have none: "\<forall>s \<in> set segments. \<not> clears ?rows s"
        by (auto simp: in_set_conv_nth)
      then have "segmentLoop ?rows [0 ..< length segments] ?st0 = ?st0"
        by (intro segmentLoop_none_clears) blast
      with run have "postFilter sqlAvg secondsOfDay db cam ts segments = Inr (db', segments, None)"
        by (simp add: Let_def)
      then show thesis using none that(1) by blast
    next
      case True
      then have "\<exists>k. (k < length segments \<and> clears ?rows (segments ! k)) \<and>
          (\<forall>j < k. \<not> (j < length segments \<and> clears ?rows (segments ! j)))"
        by (simp only: exists_least_iff [symmetric])
      then obtain k where k: "k < length segments" and clear: "clears ?rows (segments ! k)"
        and least: "\<forall>j < k. \<not> clears ?rows (segments ! j)"
        by fastforce
      from k have "segments ! k \<in> set segments" by simp
      with half clear have "score (segments ! k) \<ge> 0.5" by fastforce
      with segmentLoop_first_clearing [OF sorted k _ clear least]
      obtain row where row: "row \<in> set ?rows" "sameBox row (segments ! k)"
          "score (segments ! k) > threshold (maxs row)"
        and loop: "segmentLoop ?rows [0 ..< length segments] ?st0 =
           \<lparr>segs = segments[k := attachHistory row (segments ! k)],
            maxFireSegment = Some k, maxFireScore = score (segments ! k)\<rparr>"
        by blast
      from run loop k have "postFilter sqlAvg secondsOfDay db cam ts segments =
         Inr (db', segments[k := attachHistory row (segments ! k)],
              Some (attachHistory row (segments ! k)))"
        by (simp add: Let_def)
      with k row least show thesis using that(2) by blast
    qed
  qed
qed

subsection \<open>Values of float literals and thresholds\<close>

lemma double_literals:
  "float_round 0.2 = 3602879701896397 / 18014398509481984"
  "float_round 0.3 = 5404319552844595 / 18014398509481984"
  "float_round 0.4 = 3602879701896397 / 9007199254740992"
  "float_round 0.55 = 2476979795053773 / 4503599627370496"
  "float_round 0.6 = 5404319552844595 / 9007199254740992"
  "float_round 0.7 = 3152519739159347 / 4503599627370496"
  "float_round 0.8 = 3602879701896397 / 4503599627370496"
  "float_round 0.85 = 7656119366529843 / 9007199254740992"
  "float_round 0.9 = 8106479329266893 / 9007199254740992"
  "float_round 0.92 = 8286623314361713 / 9007199254740992"
  "float_round 0.95 = 4278419646001971 / 4503599627370496"
  "float_round 1.1 = 2476979795053773 / 2251799813685248"
  by (simp_all add: float_round_def float_exponent_def pow2_def round_even_def Let_def)

lemma threshold_values:
  "threshold (5404319552844595 / 9007199254740992) = 3602879701896397 / 4503599627370496"
  "threshold (3152519739159347 / 4503599627370496) = 2026619832316723 / 2251799813685248"
  "threshold (8106479329266893 / 9007199254740992) = 2476979795053773 / 2251799813685248"
  "threshold (3 / 4) = 4278419646001971 / 4503599627370496"
  by (simp_all add: threshold_def float_round_def float_exponent_def pow2_def round_even_def
      Let_def)

lemma float_round_values:
  "float_round (3602879701896397 / 9007199254740992) = 3602879701896397 / 9007199254740992"
  "float_round (8106479329266893 / 9007199254740992) = 8106479329266893 / 9007199254740992"
  "float_round (9907919180215091 / 9007199254740992) = 2476979795053773 / 2251799813685248"
  "float_round (2476979795053773 / 4503599627370496) = 2476979795053773 / 4503599627370496"
  "float_round 1 = 1"
  "float_round (1 / 2) = 1 / 2"
  by (simp_all add: float_round_def float_exponent_def pow2_def round_even_def Let_def)

subsection \<open>The segment the filter returns\<close>

text \<open>
  C4. For segments sorted by descending score and recorded scores that are not negative,
  \<open>postFilter\<close> returns none when no segment above 0.5 exceeds the threshold of its box,
  and otherwise returns a segment above 0.5 that exceeds the threshold of its box and
  whose score is highest among all such segments, with the average, the maximum and the
  number of the historical scores of its box attached as \<open>HistAvg\<close>, \<open>HistMax\<close> and
  \<open>HistNumSamples\<close>. A segment scoring 0.85 on a box with historical maximum 0.75 faces
  the threshold 0.95, does not clear, and is not the one returned.
\<close>

theorem C4_highest_clearing_segment:
  assumes sorted: "sorted_wrt (\<lambda>a b. score a \<ge> score b) segments"
      and nonempty: "segments \<noteq> []"
      and prob: "\<forall>r \<in> set (scores db). 0 \<le> sc_Score r"
  shows "\<exists>db' segments' result.
     postFilter sqlAvg secondsOfDay db cam ts segments = Inr (db', segments', result) \<and>
     ((\<forall>s \<in> set segments. \<not> (score s > 0.5 \<and> clearsBox secondsOfDay db cam ts s))
        \<longrightarrow> result = None) \<and>
     ((\<exists>s \<in> set segments. score s > 0.5 \<and> clearsBox secondsOfDay db cam ts s)
        \<longrightarrow> (\<exists>s \<in> set segments.
               score s > 0.5 \<and> clearsBox secondsOfDay db cam ts s \<and>
               (\<forall>t \<in> set segments.
                  score t > 0.5 \<and> clearsBox secondsOfDay db cam ts t \<longrightarrow> score t \<le> score s) \<and>
               result = Some (withHistory sqlAvg (boxScores secondsOfDay db cam ts s) s))) \<and>
     (\<forall>s \<in> set segments.
        boxScores secondsOfDay db cam ts s \<noteq> []
        \<and> Max (set (boxScores secondsOfDay db cam ts s)) = 0.75 \<and> score s = float_round 0.85
        \<longrightarrow> threshold 0.75 = float_round 0.95
            \<and> \<not> clearsBox secondsOfDay db cam ts s
            \<and> (\<forall>hist. result \<noteq> Some (withHistory sqlAvg hist s)))"
proof -
  let ?rows = "historyRows sqlAvg secondsOfDay db cam ts"
  let ?clears = "clearsBox secondsOfDay db cam ts"
  have half: "score s > 0.5" if "?clears s" for s
  proof -
    from that have "0 \<le> Max (set (boxScores secondsOfDay db cam ts s))"
      using prob by (intro boxScores_nonneg) (simp_all add: clearsBox_def)
    then have "0.5 \<le> threshold (Max (set (boxScores secondsOfDay db cam ts s)))"
      by (rule threshold_at_least_half)
    with that show ?thesis by (simp add: clearsBox_def)
  qed
  have thr: "threshold 0.75 = float_round 0.95"
    unfolding double_literals by (simp add: threshold_values)
  have below: "\<not> float_round 0.85 > float_round 0.95"
    unfolding double_literals by simp
  have example: "threshold 0.75 = float_round 0.95 \<and> \<not> ?clears s"
    if "Max (set (boxScores secondsOfDay db cam ts s)) = 0.75" "score s = float_round 0.85" for s
  proof
    show "threshold 0.75 = float_round 0.95"
      by (rule thr)
    show "\<not> ?clears s"
      unfolding clearsBox_def that thr using below by blast
  qed
  have half_all: "\<forall>s \<in> set segments. clears ?rows s \<longrightarrow> score s > 0.5"
    using half by (simp add: clears_clearsBox)
  from sorted nonempty half_all show ?thesis
  proof (cases rule: postFilter_sorted_cases [where sqlAvg = sqlAvg
        and secondsOfDay = secondsOfDay and db = db and cam = cam and ts = ts])
    case (nothing db')
    note none = this
    from none(2) have "\<forall>s \<in> set segments. \<not> ?clears s"
      by (simp add: clears_clearsBox)
    with none(1) example show ?thesis by auto
  next
    case (selected db' k row)
    let ?s = "segments ! k"
    from selected(1) have mem: "?s \<in> set segments" by simp
    have "clears ?rows ?s"
      using selected(2-4) by (auto simp: clears_def)
    then have clear: "?clears ?s"
      by (simp add: clears_clearsBox)
    have attached: "attachHistory row ?s = withHistory sqlAvg (boxScores secondsOfDay db cam ts ?s) ?s"
      using selected(2,3) by (rule attachHistory_withHistory)
    have top: "score t \<le> score ?s" if "t \<in> set segments" "?clears t" for t
    proof -
      from that(1) obtain j where j: "j < length segments" "t = segments ! j"
        by (auto simp: in_set_conv_nth)
      from that(2) have "clears ?rows t" by (simp add: clears_clearsBox)
      with j selected(5) have "\<not> j < k" by blast
      then have "j = k \<or> k < j" by auto
      then show ?thesis
        using sorted j by (auto simp: sorted_wrt_iff_nth_less)
    qed
    have other: "withHistory sqlAvg (boxScores secondsOfDay db cam ts ?s) ?s \<noteq> withHistory sqlAvg hist s"
      if "\<not> ?clears s" for s hist
    proof
      assume eq: "withHistory sqlAvg (boxScores secondsOfDay db cam ts ?s) ?s = withHistory sqlAvg hist s"
      have fields: "MinX (withHistory sqlAvg h u) = MinX u" "MinY (withHistory sqlAvg h u) = MinY u"
        "MaxX (withHistory sqlAvg h u) = MaxX u" "MaxY (withHistory sqlAvg h u) = MaxY u"
        "score (withHistory sqlAvg h u) = score u" for h u
        by (simp_all add: withHistory_def)
      from fields [of "boxScores secondsOfDay db cam ts ?s" ?s] fields [of hist s]
      have "?clears ?s = ?clears s"
        unfolding eq by (intro clearsBox_same_box_score) simp_all
      with clear that show False by simp
    qed
    show ?thesis
    proof (intro exI conjI)
      show "postFilter sqlAvg secondsOfDay db cam ts segments =
          Inr (db', segments[k := attachHistory row ?s],
               Some (withHistory sqlAvg (boxScores secondsOfDay db cam ts ?s) ?s))"
        using selected(6) attached by simp
      show "(\<forall>s \<in> set segments. \<not> (score s > 0.5 \<and> ?clears s))
          \<longrightarrow> Some (withHistory sqlAvg (boxScores secondsOfDay db cam ts ?s) ?s) = None"
        using mem clear half by blast
      show "(\<exists>s \<in> set segments. score s > 0.5 \<and> ?clears s)
        \<longrightarrow> (\<exists>s \<in> set segments.
               score s > 0.5 \<and> ?clears s \<and>
               (\<forall>t \<in> set segments. score t > 0.5 \<and> ?clears t \<longrightarrow> score t \<le> score s) \<and>
               Some (withHistory sqlAvg (boxScores secondsOfDay db cam ts ?s) ?s) =
               Some (withHistory sqlAvg (boxScores secondsOfDay db cam ts s) s))"
        using mem clear half [OF clear] top by blast
      show "\<forall>s \<in> set segments.
        boxScores secondsOfDay db cam ts s \<noteq> []
        \<and> Max (set (boxScores secondsOfDay db cam ts s)) = 0.75 \<and> score s = float_round 0.85
        \<longrightarrow> threshold 0.75 = float_round 0.95 \<and> \<not> ?clears s
            \<and> (\<forall>hist. Some (withHistory sqlAvg (boxScores secondsOfDay db cam ts ?s) ?s)
                        \<noteq> Some (withHistory sqlAvg hist s))"
        using example other by blast
    qed
  qed
qed

theorem C4_highest_clearing_segment_witness:
  "postFilter sequentialAvg (\<lambda>t. t mod 86400)
     \<lparr>scores =
        [\<lparr>sc_CameraName = ''peak1'', sc_Timestamp = 900000,
          sc_MinX = 0, sc_MinY = 0, sc_MaxX = 299, sc_MaxY = 299,
          sc_Score = float_round 0.4, sc_MinusMinutes = 0, sc_SecondsInDay = 50000\<rparr>,
         \<lparr>sc_CameraName = ''peak1'', sc_Timestamp = 900050,
          sc_MinX = 300, sc_MinY = 0, sc_MaxX = 599, sc_MaxY = 299,
          sc_Score = float_round 0.9, sc_MinusMinutes = 0, sc_SecondsInDay = 50050\<rparr>,
         \<lparr>sc_CameraName = ''peak1'', sc_Timestamp = 900100,
          sc_MinX = 0, sc_MinY = 0, sc_MaxX = 299, sc_MaxY = 299,
          sc_Score = float_round 0.6, sc_MinusMinutes = 0, sc_SecondsInDay = 50100\<rparr>],
      detections = [], alerts = [], queryLog = []\<rparr> ''peak1'' 1000000
     [\<lparr>MinX = 300, MinY = 0, MaxX = 599, MaxY = 299, score = float_round 0.95,
       HistAvg = None, HistMax = None, HistNumSamples = None\<rparr>,
      \<lparr>MinX = 0, MinY = 0, MaxX = 299, MaxY = 299, score = float_round 0.92,
       HistAvg = None, HistMax = None, HistNumSamples = None\<rparr>,
      \<lparr>MinX = 600, MinY = 0, MaxX = 899, MaxY = 299, score = float_round 0.3,
       HistAvg = None, HistMax = None, HistNumSamples = None\<rparr>] =
   Inr (\<lparr>scores =
        [\<lparr>sc_CameraName = ''peak1'', sc_Timestamp = 900000,
          sc_MinX = 0, sc_MinY = 0, sc_MaxX = 299, sc_MaxY = 299,
          sc_Score = float_round 0.4, sc_MinusMinutes = 0, sc_SecondsInDay = 50000\<rparr>,
         \<lparr>sc_CameraName = ''peak1'', sc_Timestamp = 900050,
          sc_MinX = 300, sc_MinY = 0, sc_MaxX = 599, sc_MaxY = 299,
          sc_Score = float_round 0.9, sc_MinusMinutes = 0, sc_SecondsInDay = 50050\<rparr>,
         \<lparr>sc_CameraName = ''peak1'', sc_Timestamp = 900100,
          sc_MinX = 0, sc_MinY = 0, sc_MaxX = 299, sc_MaxY = 299,
          sc_Score = float_round 0.6, sc_MinusMinutes = 0, sc_SecondsInDay = 50100\<rparr>],
         detections = [], alerts = [],
         queryLog = [ScoresHistory ''peak1'' 697600 956800 46000 53200]\<rparr>,
        [\<lparr>MinX = 300, MinY = 0, MaxX = 599, MaxY = 299, score = float_round 0.95,
          HistAvg = None, HistMax = None, HistNumSamples = None\<rparr>,
         \<lparr>MinX = 0, MinY = 0, MaxX = 299, MaxY = 299, score = float_round 0.92,
          HistAvg = Some 0.5, HistMax = Some (float_round 0.6), HistNumSamples = Some 2\<rparr>,
         \<lparr>MinX = 600, MinY = 0, MaxX = 899, MaxY = 299, score = float_round 0.3,
          HistAvg = None, HistMax = None, HistNumSamples = None\<rparr>],
        Some \<lparr>MinX = 0, MinY = 0, MaxX = 299, MaxY = 299, score = float_round 0.92,
          HistAvg = Some 0.5, HistMax = Some (float_round 0.6), HistNumSamples = Some 2\<rparr>)"
proof -
  let ?db = "\<lparr>scores =
        [\<lparr>sc_CameraName = ''peak1'', sc_Timestamp = 900000,
          sc_MinX = 0, sc_MinY = 0, sc_MaxX = 299, sc_MaxY = 299,
          sc_Score = float_round 0.4, sc_MinusMinutes = 0, sc_SecondsInDay = 50000\<rparr>,
         \<lparr>sc_CameraName = ''peak1'', sc_Timestamp = 900050,
          sc_MinX = 300, sc_MinY = 0, sc_MaxX = 599, sc_MaxY = 299,
          sc_Score = float_round 0.9, sc_MinusMinutes = 0, sc_SecondsInDay = 50050\<rparr>,
         \<lparr>sc_CameraName = ''peak1'', sc_Timestamp = 900100,
          sc_MinX = 0, sc_MinY = 0, sc_MaxX = 299, sc_MaxY = 299,
          sc_Score = float_round 0.6, sc_MinusMinutes = 0, sc_SecondsInDay = 50100\<rparr>],
      detections = [], alerts = [], queryLog = []\<rparr>"
  let ?segments = "[\<lparr>MinX = 300, MinY = 0, MaxX = 599, MaxY = 299, score = float_round 0.95,
       HistAvg = None, HistMax = None, HistNumSamples = None\<rparr>,
      \<lparr>MinX = 0, MinY = 0, MaxX = 299, MaxY = 299, score = float_round 0.92,
       HistAvg = None, HistMax = None, HistNumSamples = None\<rparr>,
      \<lparr>MinX = 600, MinY = 0, MaxX = 899, MaxY = 299, score = float_round 0.3,
       HistAvg = None, HistMax = None, HistNumSamples = None\<rparr>]"
  have h1: "sorted_wrt (\<lambda>a b. score a \<ge> score b) ?segments"
    unfolding double_literals by simp
  have h2: "?segments \<noteq> []"
    by simp
  have h3: "\<forall>r \<in> set (scores ?db). 0 \<le> sc_Score r"
    unfolding double_literals by simp
  from C4_highest_clearing_segment [OF h1 h2 h3, of sequentialAvg "\<lambda>t. t mod 86400" "''peak1''" 1000000]
  obtain db' segments' result where
    run: "postFilter sequentialAvg (\<lambda>t. t mod 86400) ?db ''peak1'' 1000000 ?segments =
            Inr (db', segments', result)"
    by blast
  have "\<exists>x. postFilter sequentialAvg (\<lambda>t. t mod 86400) ?db ''peak1'' 1000000 ?segments = Inr x"
    using run by simp
  moreover have "postFilter sequentialAvg (\<lambda>t. t mod 86400) ?db ''peak1'' 1000000 ?segments =
      Inr (?db\<lparr>queryLog := [ScoresHistory ''peak1'' 697600 956800 46000 53200]\<rparr>,
        [\<lparr>MinX = 300, MinY = 0, MaxX = 599, MaxY = 299, score = float_round 0.95,
          HistAvg = None, HistMax = None, HistNumSamples = None\<rparr>,
         \<lparr>MinX = 0, MinY = 0, MaxX = 299, MaxY = 299, score = float_round 0.92,
          HistAvg = Some 0.5, HistMax = Some (float_round 0.6), HistNumSamples = Some 2\<rparr>,
         \<lparr>MinX = 600, MinY = 0, MaxX = 899, MaxY = 299, score = float_round 0.3,
          HistAvg = None, HistMax = None, HistNumSamples = None\<rparr>],
        Some \<lparr>MinX = 0, MinY = 0, MaxX = 299, MaxY = 299, score = float_round 0.92,
          HistAvg = Some 0.5, HistMax = Some (float_round 0.6), HistNumSamples = Some 2\<rparr>)"
    unfolding double_literals
    by (simp add: postFilter_def queryScoresHistory_def groupRow_def scoreBox_def Let_def
        rowStep_def sameBox_def threshold_values sequentialAvg_def float_round_values
        upt_rec [of 0] upt_rec [of 1] upt_rec [of 2] upt_rec [of 3])
  ultimately show ?thesis
    by simp
qed

subsection \<open>The threshold of a box\<close>

text \<open>
  C3. When the box of a segment has historical scores, \<open>postFilter\<close> compares the score
  with \<open>max ((histMax + 1) / 2) (histMax + 0.2)\<close>, computed in float arithmetic from the
  maximum \<open>histMax\<close> of those scores: a single segment scoring at least 0.5 is returned,
  with average, maximum and number of the historical scores attached, exactly when its
  score exceeds that value. Each step of the loop tests a segment against a row of its
  box with this bound. A historical maximum of 0.6 gives 0.8, and 0.9 gives 1.1.
\<close>

theorem C3_threshold:
  assumes "boxScores secondsOfDay db cam ts s \<noteq> []" and "score s \<ge> 0.5"
  shows "(let hist = boxScores secondsOfDay db cam ts s; histMax = Max (set hist)
          in \<exists>db'. postFilter sqlAvg secondsOfDay db cam ts [s] =
            (if score s > max (float_round (float_round (histMax + 1) / 2))
                              (float_round (histMax + float_round 0.2))
             then Inr (db', [withHistory sqlAvg hist s], Some (withHistory sqlAvg hist s))
             else Inr (db', [s], None)))
       \<and> rowStep i row st =
            (if sameBox row (segs st ! i)
                \<and> score (segs st ! i) > max (float_round (float_round (maxs row + 1) / 2))
                                            (float_round (maxs row + float_round 0.2))
                \<and> score (segs st ! i) > maxFireScore st
             then \<lparr>segs = (segs st)[i := attachHistory row (segs st ! i)],
                   maxFireSegment = Some i,
                   maxFireScore = score (segs st ! i)\<rparr>
             else st)
       \<and> threshold (float_round 0.6) = float_round 0.8
       \<and> threshold (float_round 0.9) = float_round 1.1"
proof -
  let ?rows = "historyRows sqlAvg secondsOfDay db cam ts"
  let ?hist = "boxScores secondsOfDay db cam ts s"
  let ?st0 = "\<lparr>segs = [s], maxFireSegment = None, maxFireScore = 0\<rparr>"
  have bound: "threshold m = max (float_round (float_round (m + 1) / 2))
      (float_round (m + float_round 0.2))" for m
    by (simp add: threshold_def)
  from assms(2) obtain db' where run: "postFilter sqlAvg secondsOfDay db cam ts [s] =
      (let st = segmentLoop ?rows [0 ..< length [s]] ?st0
       in Inr (db', segs st, map_option (\<lambda>i. segs st ! i) (maxFireSegment st)))"
    using postFilter_slow_path [of "[s]" sqlAvg secondsOfDay db cam ts] by auto
  have only: "clears ?rows s \<longleftrightarrow> score s > threshold (Max (set ?hist))"
    using assms(1) by (simp add: clears_clearsBox clearsBox_def)
  have filter: "postFilter sqlAvg secondsOfDay db cam ts [s] =
      (if score s > threshold (Max (set ?hist))
       then Inr (db', [withHistory sqlAvg ?hist s], Some (withHistory sqlAvg ?hist s))
       else Inr (db', [s], None))"
  proof (cases "score s > threshold (Max (set ?hist))")
    case True
    with only have clear: "clears ?rows ([s] ! 0)" by simp
    from segmentLoop_first_clearing [of "[s]" 0 ?rows] assms(2) clear
    obtain row' where r': "row' \<in> set ?rows" "sameBox row' s"
      and loop: "segmentLoop ?rows [0 ..< length [s]] ?st0 =
           \<lparr>segs = [s][0 := attachHistory row' ([s] ! 0)],
            maxFireSegment = Some 0, maxFireScore = score ([s] ! 0)\<rparr>"
      by auto
    from r' have "attachHistory row' s = withHistory sqlAvg ?hist s"
      by (rule attachHistory_withHistory)
    with run loop True show ?thesis
      by (simp add: Let_def)
  next
    case False
    with only have "\<forall>t \<in> set [s]. \<not> (score t \<ge> 0.5 \<and> clears ?rows t)" by simp
    then have "segmentLoop ?rows [0 ..< length [s]] ?st0 = ?st0"
      by (rule segmentLoop_none_clears)
    with run False show ?thesis
      by (simp add: Let_def)
  qed
  have step: "rowStep i row st =
            (if sameBox row (segs st ! i)
                \<and> score (segs st ! i) > max (float_round (float_round (maxs row + 1) / 2))
                                            (float_round (maxs row + float_round 0.2))
                \<and> score (segs st ! i) > maxFireScore st
             then \<lparr>segs = (segs st)[i := attachHistory row (segs st ! i)],
                   maxFireSegment = Some i,
                   maxFireScore = score (segs st ! i)\<rparr>
             else st)"
    by (simp add: rowStep_def threshold_def attachHistory_def Let_def)
  have numbers: "threshold (float_round 0.6) = float_round 0.8"
      "threshold (float_round 0.9) = float_round 1.1"
    unfolding double_literals by (simp_all add: threshold_values)
  from filter have "\<exists>db'. postFilter sqlAvg secondsOfDay db cam ts [s] =
            (if score s > max (float_round (float_round (Max (set ?hist) + 1) / 2))
                              (float_round (Max (set ?hist) + float_round 0.2))
             then Inr (db', [withHistory sqlAvg ?hist s], Some (withHistory sqlAvg ?hist s))
             else Inr (db', [s], None))"
    unfolding bound by (rule exI)
  with step numbers show ?thesis
    by (simp only: Let_def simp_thms)
qed

text \<open>
  Two historical scores 0.4 and 0.7 for the box and a segment scoring 0.9: the float sum
  \<open>0.7 + 0.2\<close> is \<open>0.8999999999999999\<close>, the segment exceeds it and is returned with
  average 0.55, maximum 0.7 and two samples.
\<close>

theorem C3_threshold_witness:
  "postFilter sequentialAvg (\<lambda>t. t mod 86400)
     \<lparr>scores =
        [\<lparr>sc_CameraName = ''peak1'', sc_Timestamp = 900000,
          sc_MinX = 0, sc_MinY = 0, sc_MaxX = 299, sc_MaxY = 299,
          sc_Score = float_round 0.4, sc_MinusMinutes = 0, sc_SecondsInDay = 50000\<rparr>,
         \<lparr>sc_CameraName = ''peak1'', sc_Timestamp = 900100,
          sc_MinX = 0, sc_MinY = 0, sc_MaxX = 299, sc_MaxY = 299,
          sc_Score = float_round 0.7, sc_MinusMinutes = 0, sc_SecondsInDay = 50100\<rparr>],
      detections = [], alerts = [], queryLog = []\<rparr> ''peak1'' 1000000
     [\<lparr>MinX = 0, MinY = 0, MaxX = 299, MaxY = 299, score = float_round 0.9,
       HistAvg = None, HistMax = None, HistNumSamples = None\<rparr>] =
   Inr (\<lparr>scores =
        [\<lparr>sc_CameraName = ''peak1'', sc_Timestamp = 900000,
          sc_MinX = 0, sc_MinY = 0, sc_MaxX = 299, sc_MaxY = 299,
          sc_Score = float_round 0.4, sc_MinusMinutes = 0, sc_SecondsInDay = 50000\<rparr>,
         \<lparr>sc_CameraName = ''peak1'', sc_Timestamp = 900100,
          sc_MinX = 0, sc_MinY = 0, sc_MaxX = 299, sc_MaxY = 299,
          sc_Score = float_round 0.7, sc_MinusMinutes = 0, sc_SecondsInDay = 50100\<rparr>],
         detections = [], alerts = [],
         queryLog = [ScoresHistory ''peak1'' 697600 956800 46000 53200]\<rparr>,
        [\<lparr>MinX = 0, MinY = 0, MaxX = 299, MaxY = 299, score = float_round 0.9,
          HistAvg = Some (float_round 0.55), HistMax = Some (float_round 0.7),
          HistNumSamples = Some 2\<rparr>],
        Some \<lparr>MinX = 0, MinY = 0, MaxX = 299, MaxY = 299, score = float_round 0.9,
          HistAvg = Some (float_round 0.55), HistMax = Some (float_round 0.7),
          HistNumSamples = Some 2\<rparr>)"
proof -
  let ?db = "\<lparr>scores =
        [\<lparr>sc_CameraName = ''peak1'', sc_Timestamp = 900000,
          sc_MinX = 0, sc_MinY = 0, sc_MaxX = 299, sc_MaxY = 299,
          sc_Score = float_round 0.4, sc_MinusMinutes = 0, sc_SecondsInDay = 50000\<rparr>,
         \<lparr>sc_CameraName = ''peak1'', sc_Timestamp = 900100,
          sc_MinX = 0, sc_MinY = 0, sc_MaxX = 299, sc_MaxY = 299,
          sc_Score = float_round 0.7, sc_MinusMinutes = 0, sc_SecondsInDay = 50100\<rparr>],
      detections = [], alerts = [], queryLog = []\<rparr>"
  let ?s = "\<lparr>MinX = 0, MinY = 0, MaxX = 299, MaxY = 299, score = float_round 0.9,
       HistAvg = None, HistMax = None, HistNumSamples = None\<rparr>"
  have hist: "boxScores (\<lambda>t. t mod 86400) ?db ''peak1'' 1000000 ?s =
      [float_round 0.4, float_round 0.7]"
    by (simp add: boxScores_def historyWindow_def scoreBox_def)
  have h1: "boxScores (\<lambda>t. t mod 86400) ?db ''peak1'' 1000000 ?s \<noteq> []"
    unfolding hist by simp
  have h2: "score ?s \<ge> 0.5"
    unfolding double_literals by simp
  have above: "score ?s > max (float_round (float_round (Max (set [float_round 0.4, float_round 0.7]) + 1) / 2))
      (float_round (Max (set [float_round 0.4, float_round 0.7]) + float_round 0.2))"
    using threshold_values(2) unfolding double_literals threshold_def by simp
  have avg: "sequentialAvg [float_round 0.4, float_round 0.7] = float_round 0.55"
    unfolding double_literals by (simp add: sequentialAvg_def float_round_values)
  have top: "Max (set [float_round 0.4, float_round 0.7]) = float_round 0.7"
    unfolding double_literals by simp
  from C3_threshold [OF h1 h2, of sequentialAvg]
  have "\<exists>db'. postFilter sequentialAvg (\<lambda>t. t mod 86400) ?db ''peak1'' 1000000 [?s] =
      (if score ?s > max (float_round (float_round (Max (set [float_round 0.4, float_round 0.7]) + 1) / 2))
                         (float_round (Max (set [float_round 0.4, float_round 0.7]) + float_round 0.2))
       then Inr (db', [withHistory sequentialAvg [float_round 0.4, float_round 0.7] ?s],
                 Some (withHistory sequentialAvg [float_round 0.4, float_round 0.7] ?s))
       else Inr (db', [?s], None))"
    unfolding hist Let_def by (rule conjunct1)
  then obtain db' where "postFilter sequentialAvg (\<lambda>t. t mod 86400) ?db ''peak1'' 1000000 [?s] =
      (if score ?s > max (float_round (float_round (Max (set [float_round 0.4, float_round 0.7]) + 1) / 2))
                         (float_round (Max (set [float_round 0.4, float_round 0.7]) + float_round 0.2))
       then Inr (db', [withHistory sequentialAvg [float_round 0.4, float_round 0.7] ?s],
                 Some (withHistory sequentialAvg [float_round 0.4, float_round 0.7] ?s))
       else Inr (db', [?s], None))"
    by (rule exE)
  with above have run: "postFilter sequentialAvg (\<lambda>t. t mod 86400) ?db ''peak1'' 1000000 [?s] =
      Inr (db', [withHistory sequentialAvg [float_round 0.4, float_round 0.7] ?s],
           Some (withHistory sequentialAvg [float_round 0.4, float_round 0.7] ?s))"
    by (simp only: if_True)
  have "\<exists>segments' result. postFilter sequentialAvg (\<lambda>t. t mod 86400) ?db ''peak1'' 1000000 [?s] =
      Inr (?db\<lparr>queryLog := [ScoresHistory ''peak1'' 697600 956800 46000 53200]\<rparr>,
           segments', result)"
    using h2 by (simp add: postFilter_def queryScoresHistory_def Let_def del: upt.simps)
  then obtain segments' result where
    direct: "postFilter sequentialAvg (\<lambda>t. t mod 86400) ?db ''peak1'' 1000000 [?s] =
      Inr (?db\<lparr>queryLog := [ScoresHistory ''peak1'' 697600 956800 46000 53200]\<rparr>,
           segments', result)"
    by blast
  have attached: "withHistory sequentialAvg [float_round 0.4, float_round 0.7] ?s =
      \<lparr>MinX = 0, MinY = 0, MaxX = 299, MaxY = 299, score = float_round 0.9,
       HistAvg = Some (float_round 0.55), HistMax = Some (float_round 0.7),
       HistNumSamples = Some 2\<rparr>"
    unfolding withHistory_def avg top by simp
  from run direct show ?thesis
    unfolding attached by simp
qed

subsection \<open>One entry per camera\<close>

lemma getDeferrredImgageInfo_onePerCamera:
  assumes "onePerCamera deferredImages"
      and "getDeferrredImgageInfo deferredImages tt minusMinutes currentTime = (queue', full, info)"
  shows "onePerCamera queue'"
    and "info = Some e \<Longrightarrow> cameraID e \<notin> cameraID ` set queue'"
  using assms
  by (auto simp: getDeferrredImgageInfo_def onePerCamera_def Let_def
      split: if_splits list.splits)

lemma addToDeferredImages_onePerCamera:
  assumes "onePerCamera deferredImages"
      and "addToDeferredImages net cameras deferredImages files =
             Some (Inr (net', cameras', files', queue'))"
  shows "onePerCamera queue'"
proof (cases "getNextImage net cameras None files")
  case None
  with assms(2) show ?thesis by (simp add: addToDeferredImages_def)
next
  case (Some res)
  show ?thesis
  proof (cases res)
    case (Inl e)
    with Some assms(2) show ?thesis by (simp add: addToDeferredImages_def)
  next
    case (Inr ok)
    obtain n c f cid ts path hash where ok: "ok = (n, c, f, (cid, ts, path, hash))"
      by (cases ok) auto
    show ?thesis
    proof (cases "filter (\<lambda>x. cameraID x = cid) deferredImages = []")
      case True
      then have "cid \<notin> cameraID ` set deferredImages"
        by (auto simp: filter_empty_conv)
      with assms Some Inr ok True show ?thesis
        by (auto simp: addToDeferredImages_def onePerCamera_def Let_def)
    next
      case False
      with assms Some Inr ok show ?thesis
        by (auto simp: addToDeferredImages_def Let_def split: if_splits)
    qed
  qed
qed

lemma genDiffImageFromDeferred_onePerCamera:
  assumes "onePerCamera deferredImages"
      and "cameraID info \<notin> cameraID ` set deferredImages"
      and "genDiffImageFromDeferred diffPath net cameras info deferredImages minusMinutes files =
             Some (Inr (net', cameras', files', queue', ready))"
  shows "onePerCamera queue'"
proof -
  from assms(3) have "queue' = deferredImages \<or>
      (\<exists>ts w. queue' = deferredImages @ [info\<lparr>timestamp := ts, oldWait := w\<rparr>])"
    by (auto simp: genDiffImageFromDeferred_def Let_def
        split: option.splits sum.splits prod.splits if_splits)
  with assms(1,2) show ?thesis
    by (auto simp: onePerCamera_def)
qed

text \<open>
  C8. The main loop takes the head entry out of the queue, then calls
  \<open>addToDeferredImages\<close> (the queue is not full), then resolves the entry it took out.
  Camera peak1 shows image h1 when first queued, h2 when \<open>addToDeferredImages\<close> fetches
  it, and h1 again when the entry is resolved 62 seconds after its capture. The new
  entry for peak1 is appended, the old entry is put back behind it, and the queue holds
  two entries of peak1. The next \<open>addToDeferredImages\<close> that fetches peak1 fails its
  assertion that one entry matches.
\<close>

theorem C8_two_entries_after_requeue:
  "onePerCamera
     [\<lparr>timestamp = 100, cameraID = ''peak1'', imgPath = ''peak1_100.jpg'', md5 = ''h1'',
       oldWait = 0\<rparr>]
   \<and> diffModeTick (\<lambda>p m. p @ ''_diff'')
       [\<lparr>counterValue = 4, clock = 161, savedAs = ''peak1_161.jpg'', outcome = Downloaded ''h2''\<rparr>,
        \<lparr>counterValue = 5, clock = 162, savedAs = ''peak1_162.jpg'', outcome = Downloaded ''h1''\<rparr>]
       [\<lparr>cam_name = ''peak1'', cam_url = ''u1'', cam_md5 = Some ''h1''\<rparr>,
        \<lparr>cam_name = ''peak2'', cam_url = ''u2'', cam_md5 = None\<rparr>]
       [\<lparr>timestamp = 100, cameraID = ''peak1'', imgPath = ''peak1_100.jpg'', md5 = ''h1'',
         oldWait = 0\<rparr>]
       {''peak1_100.jpg''} initializeTimeTracker 1 161 =
     Some (Inr ([],
       [\<lparr>cam_name = ''peak1'', cam_url = ''u1'', cam_md5 = Some ''h1''\<rparr>,
        \<lparr>cam_name = ''peak2'', cam_url = ''u2'', cam_md5 = None\<rparr>],
       {''peak1_161.jpg'', ''peak1_100.jpg''},
       [\<lparr>timestamp = 161, cameraID = ''peak1'', imgPath = ''peak1_161.jpg'', md5 = ''h2'',
         oldWait = 0\<rparr>,
        \<lparr>timestamp = 162, cameraID = ''peak1'', imgPath = ''peak1_100.jpg'', md5 = ''h1'',
         oldWait = 62\<rparr>],
       None))
   \<and> \<not> onePerCamera
       [\<lparr>timestamp = 161, cameraID = ''peak1'', imgPath = ''peak1_161.jpg'', md5 = ''h2'',
         oldWait = 0\<rparr>,
        \<lparr>timestamp = 162, cameraID = ''peak1'', imgPath = ''peak1_100.jpg'', md5 = ''h1'',
         oldWait = 62\<rparr>]
   \<and> addToDeferredImages
       [\<lparr>counterValue = 6, clock = 170, savedAs = ''peak1_170.jpg'', outcome = Downloaded ''h3''\<rparr>]
       [\<lparr>cam_name = ''peak1'', cam_url = ''u1'', cam_md5 = Some ''h1''\<rparr>,
        \<lparr>cam_name = ''peak2'', cam_url = ''u2'', cam_md5 = None\<rparr>]
       [\<lparr>timestamp = 161, cameraID = ''peak1'', imgPath = ''peak1_161.jpg'', md5 = ''h2'',
         oldWait = 0\<rparr>,
        \<lparr>timestamp = 162, cameraID = ''peak1'', imgPath = ''peak1_100.jpg'', md5 = ''h1'',
         oldWait = 62\<rparr>]
       {''peak1_161.jpg'', ''peak1_100.jpg''} =
     Some (Inl AssertionError)"
proof -
  have three: "float_round 3 = 3"
    using float_round_of_int [of 3] by simp
  show ?thesis
    by (simp add: diffModeTick_def getDeferrredImgageInfo_def expectedDrainSeconds_def three
        initializeTimeTracker_def addToDeferredImages_def genDiffImageFromDeferred_def
        os_remove_def onePerCamera_def Let_def insert_Diff_if numeral_2_eq_2 [symmetric])
qed

end
